theory Spec2Isabelle
  imports Complex_Main "HOL-Library.Multiset"
begin

section \<open>Data model\<close>

text \<open>
  The program is the notebook \<^verbatim>\<open>MSD-low-memory.ipynb\<close>: \<^verbatim>\<open>filter_XtX\<close>,
  \<^verbatim>\<open>calculate_sparsity_pattern\<close>, \<^verbatim>\<open>sparse_parameter_estimation\<close>,
  \<^verbatim>\<open>sparse_solution\<close> and the re-scaling cell that follows them.

  Matrix values are modelled as mathematical reals. The float32 rounding of the
  source, and the values \<^verbatim>\<open>inf\<close> and \<^verbatim>\<open>nan\<close> that numpy produces on a division by
  zero, are outside the model: a quotient by zero has the value \<open>0\<close>, as in HOL, and
  several theorems assume the divisor to be nonzero to stay clear of it.

  A scipy sparse matrix stores a value at some coordinates and nothing at the others;
  a stored value may be \<open>0\<close> (an explicit zero). It is modelled as its shape and a
  partial map from coordinates \<open>(row, column)\<close> to stored values. All sparse matrices
  of the program are square, so one number gives the shape. Stored coordinates are
  read in the canonical order of the compressed formats (ascending row inside a
  column), through enumerations of \<open>[0..<dim]\<close>.
\<close>

datatype error =
  ZeroDivisionError | UnboundLocalError | ValueError | IndexError | TypeError | LinAlgError

record spmat =
  dim :: nat
  ent :: "nat \<times> nat \<Rightarrow> real option"

text \<open>The value of a matrix at a coordinate: the stored value, \<open>0\<close> where nothing is stored.\<close>

definition val :: "spmat \<Rightarrow> nat \<times> nat \<Rightarrow> real" where
  "val A k = (case ent A k of None \<Rightarrow> 0 | Some v \<Rightarrow> v)"

text \<open>Rows stored in column \<open>j\<close>, ascending.\<close>

definition col_rows :: "spmat \<Rightarrow> nat \<Rightarrow> nat list" where
  "col_rows A j = filter (\<lambda>i. ent A (i, j) \<noteq> None) [0..<dim A]"

text \<open>\<^verbatim>\<open>A.getnnz(axis=0)[j]\<close>: the number of stored entries of column \<open>j\<close>, explicit zeros included.\<close>

definition getnnz_col :: "spmat \<Rightarrow> nat \<Rightarrow> nat" where
  "getnnz_col A j = length (col_rows A j)"

text \<open>\<^verbatim>\<open>A[:,j].nonzero()[0]\<close>: the stored rows of column \<open>j\<close> whose value is not zero.\<close>

definition nonzero_rows :: "spmat \<Rightarrow> nat \<Rightarrow> nat list" where
  "nonzero_rows A j = filter (\<lambda>i. val A (i, j) \<noteq> 0) (col_rows A j)"

text \<open>All coordinates of an \<open>n\<close> by \<open>n\<close> matrix, column by column.\<close>

definition coords :: "nat \<Rightarrow> (nat \<times> nat) list" where
  "coords n = concat (map (\<lambda>j. map (\<lambda>i. (i, j)) [0..<n]) [0..<n])"

text \<open>\<^verbatim>\<open>A.nonzero()\<close>: the stored coordinates whose value is not zero.\<close>

definition nonzero :: "spmat \<Rightarrow> (nat \<times> nat) list" where
  "nonzero A = filter (\<lambda>k. ent A k \<noteq> None \<and> val A k \<noteq> 0) (coords (dim A))"

text \<open>\<^verbatim>\<open>sparse.find(A)\<close>: coordinates and values of the nonzero stored entries.\<close>

definition find_nz :: "spmat \<Rightarrow> ((nat \<times> nat) \<times> real) list" where
  "find_nz A = map (\<lambda>k. (k, val A k)) (nonzero A)"

text \<open>\<^verbatim>\<open>A.eliminate_zeros()\<close>: explicit zeros leave the structure.\<close>

definition eliminate_zeros :: "spmat \<Rightarrow> spmat" where
  "eliminate_zeros A =
     A\<lparr>ent := (\<lambda>k. case ent A k of None \<Rightarrow> None
                             | Some v \<Rightarrow> if v = 0 then None else Some v)\<rparr>"

text \<open>
  \<^verbatim>\<open>sparse.csc_matrix((data, (row, col)), shape=(n, n))\<close>: entries given twice are
  summed. The constructor raises \<^verbatim>\<open>ValueError\<close> on an index outside the shape;
  \<open>in_shape\<close> is that check, made at the call sites whose indices are not below
  \<open>n\<close> by construction.
\<close>

definition add_entry :: "(nat \<times> nat) \<times> real \<Rightarrow> (nat \<times> nat \<Rightarrow> real option) \<Rightarrow> (nat \<times> nat \<Rightarrow> real option)" where
  "add_entry t m = m(fst t \<mapsto> (case m (fst t) of None \<Rightarrow> snd t | Some w \<Rightarrow> w + snd t))"

definition csc_matrix :: "nat \<Rightarrow> ((nat \<times> nat) \<times> real) list \<Rightarrow> spmat" where
  "csc_matrix n ts = \<lparr>dim = n, ent = fold add_entry ts Map.empty\<rparr>"

definition in_shape :: "nat \<Rightarrow> (nat \<times> nat) \<Rightarrow> bool" where
  "in_shape n k = (fst k < n \<and> snd k < n)"

text \<open>The values that a list of triples holds for the coordinate \<open>k\<close>, in the order of the list.\<close>

definition contributions :: "((nat \<times> nat) \<times> real) list \<Rightarrow> nat \<times> nat \<Rightarrow> real list" where
  "contributions ts k = map snd (filter (\<lambda>t. fst t = k) ts)"

text \<open>
  \<^verbatim>\<open>np.argsort(a)\<close>: indices that sort \<open>a\<close> ascending. numpy's default sort does not
  promise an order among equal keys; the model takes the stable one. The theorems
  below use only that the result is a permutation of the indices in ascending key
  order.
\<close>

definition np_argsort :: "real list \<Rightarrow> nat list" where
  "np_argsort a = sort_key (\<lambda>i. a ! i) [0..<length a]"

text \<open>
  \<^verbatim>\<open>bn.argpartition(a, kth)\<close>: a permutation of the indices with the \<open>kth\<close> smallest
  keys in front. It raises \<^verbatim>\<open>ValueError\<close> unless \<open>kth < len(a)\<close>. A full sort is one
  such permutation.
\<close>

definition argpartition :: "real list \<Rightarrow> nat \<Rightarrow> error + nat list" where
  "argpartition a kth = (if kth < length a then Inr (np_argsort a) else Inl ValueError)"

text \<open>
  numpy broadcasting of a one-dimensional array to length \<open>n\<close>: an array of that
  length is taken as it is, an array of length one is repeated, anything else raises.
\<close>

definition broadcast_to :: "real list \<Rightarrow> nat \<Rightarrow> error + real list" where
  "broadcast_to xs n =
     (if length xs = n then Inr xs
      else if length xs = 1 then Inr (replicate n (hd xs))
      else Inl ValueError)"

section \<open>calculate\_sparsity\_pattern\<close>

text \<open>
  Python variables hold references. The matrices that the program mutates in place
  live in a store; a function that receives a matrix receives its address.
\<close>

type_synonym ref = nat
type_synonym heap = "ref \<Rightarrow> spmat"

text \<open>\<^verbatim>\<open>AA[rows, ii] = 0.0\<close> on entries that are stored: they stay stored, with value zero.\<close>

definition zero_rows :: "spmat \<Rightarrow> nat \<Rightarrow> nat list \<Rightarrow> spmat" where
  "zero_rows A ii rows = A\<lparr>ent := fold (\<lambda>r m. m((r, ii) \<mapsto> 0)) rows (ent A)\<rparr>"

text \<open>
  The body of the loop over the columns that exceed the budget:
  \<^verbatim>\<open>jj = AA[:,ii].nonzero()[0]\<close>,
  \<^verbatim>\<open>kk = bn.argpartition(-np.abs(AA[jj,ii]), maxInColumn)[maxInColumn:]\<close>,
  \<^verbatim>\<open>AA[jj[kk], ii] = 0.0\<close>.
\<close>

definition cap_column :: "spmat \<Rightarrow> nat \<Rightarrow> nat \<Rightarrow> error + spmat" where
  "cap_column A maxInColumn ii =
     (let jj = nonzero_rows A ii in
      case argpartition (map (\<lambda>j. - \<bar>val A (j, ii)\<bar>) jj) maxInColumn of
        Inl e \<Rightarrow> Inl e
      | Inr p \<Rightarrow> Inr (zero_rows A ii (map (\<lambda>k. jj ! k) (drop maxInColumn p))))"

text \<open>The rows \<^verbatim>\<open>jj[kk]\<close> that the body zeroes in column \<open>ii\<close>, when \<^verbatim>\<open>bn.argpartition\<close> returns.\<close>

definition dropped_rows :: "spmat \<Rightarrow> nat \<Rightarrow> nat \<Rightarrow> nat list" where
  "dropped_rows A maxInColumn ii =
     (let jj = nonzero_rows A ii in
      map (\<lambda>k. jj ! k) (drop maxInColumn (np_argsort (map (\<lambda>j. - \<bar>val A (j, ii)\<bar>) jj))))"

text \<open>The loop, on the object at address \<open>AA\<close>; an exception leaves the store as it is then.\<close>

fun cap_loop :: "heap \<Rightarrow> ref \<Rightarrow> nat \<Rightarrow> nat list \<Rightarrow> (error + unit) \<times> heap" where
  "cap_loop h AA maxInColumn [] = (Inr (), h)"
| "cap_loop h AA maxInColumn (ii # iiList) =
     (case cap_column (h AA) maxInColumn ii of
        Inl e \<Rightarrow> (Inl e, h)
      | Inr A' \<Rightarrow> cap_loop (h(AA := A')) AA maxInColumn iiList)"

text \<open>
  \<^verbatim>\<open>AA = AtA\<close> binds a second name to the same object; no copy is made. The list
  \<open>iiList\<close> is computed once, before the loop.
\<close>

definition calculate_sparsity_pattern :: "heap \<Rightarrow> ref \<Rightarrow> nat \<Rightarrow> (error + ref) \<times> heap" where
  "calculate_sparsity_pattern h AtA maxInColumn =
     (let AA = AtA;
          iiList = filter (\<lambda>ii. getnnz_col (h AA) ii > maxInColumn) [0..<dim (h AA)] in
      case cap_loop h AA maxInColumn iiList of
        (Inl e, h') \<Rightarrow> (Inl e, h')
      | (Inr u, h') \<Rightarrow> (Inr AA, h'(AA := eliminate_zeros (h' AA))))"

section \<open>filter\_XtX\<close>

text \<open>
  \<^verbatim>\<open>train_data\<close>: the user by item interaction matrix, with its shape
  \<^verbatim>\<open>(shape[0], shape[1])\<close> = (users, items).
\<close>

record interactions =
  nusers :: nat
  nitems :: nat
  cell :: "nat \<Rightarrow> nat \<Rightarrow> real"

definition alpha :: real where
  "alpha = 3 / 4"

text \<open>\<^verbatim>\<open>mu = np.sum(train_data, axis=0) / userCount\<close> and the vectors derived from it.\<close>

definition mu :: "interactions \<Rightarrow> nat \<Rightarrow> real" where
  "mu X i = sum_list (map (\<lambda>u. cell X u i) [0..<nusers X]) / real (nusers X)"

definition variance_times_userCount :: "interactions \<Rightarrow> nat \<Rightarrow> real" where
  "variance_times_userCount X i = (mu X i - mu X i * mu X i) * real (nusers X)"

definition rescaling :: "interactions \<Rightarrow> nat \<Rightarrow> real" where
  "rescaling X i = variance_times_userCount X i powr (alpha / 2)"

definition scaling :: "interactions \<Rightarrow> nat \<Rightarrow> real" where
  "scaling X i = 1 / rescaling X i"

text \<open>
  A Python slice \<^verbatim>\<open>[lo:hi]\<close> of a sequence of length \<open>n\<close>: a negative bound counts
  from the end, and both bounds are clipped to the sequence.
\<close>

definition clip_index :: "int \<Rightarrow> nat \<Rightarrow> nat" where
  "clip_index i n = (if i < 0 then nat (max 0 (int n + i)) else min (nat i) n)"

definition py_slice :: "int \<Rightarrow> int \<Rightarrow> nat \<Rightarrow> nat list" where
  "py_slice lo hi n = [clip_index lo n ..< clip_index hi n]"

text \<open>
  One entry of the dense tile \<^verbatim>\<open>XtX_tmp\<close>, at the items \<open>i\<close> and \<open>j\<close>: the cross
  product of the two columns, minus \<^verbatim>\<open>mu[i] * (mu[j] * userCount)\<close>, times the two
  scaling factors.
\<close>

definition cross :: "interactions \<Rightarrow> nat \<Rightarrow> nat \<Rightarrow> real" where
  "cross X i j = sum_list (map (\<lambda>u. cell X u i * cell X u j) [0..<nusers X])"

definition XtX_tmp :: "interactions \<Rightarrow> nat \<Rightarrow> nat \<Rightarrow> real" where
  "XtX_tmp X i j =
     scaling X i * (cross X i j - mu X i * (mu X j * real (nusers X))) * scaling X j"

text \<open>
  The entries that the tile \<open>(ii, jj)\<close> adds to \<^verbatim>\<open>ixs\<close> and \<^verbatim>\<open>XtX_nzs\<close>:
  \<^verbatim>\<open>np.where(np.abs(XtX_tmp) > thd)\<close> in row-major order, the tile's local indices
  shifted by \<^verbatim>\<open>bs*ii\<close> and \<^verbatim>\<open>bs*jj\<close>.
\<close>

definition tile_entries :: "interactions \<Rightarrow> int \<Rightarrow> real \<Rightarrow> nat \<Rightarrow> nat \<Rightarrow> ((nat \<times> nat) \<times> real) list" where
  "tile_entries X bs thd ii jj =
     (let rs = py_slice (bs * int ii) (bs * (int ii + 1)) (nitems X);
          cs = py_slice (bs * int jj) (bs * (int jj + 1)) (nitems X) in
      concat (map (\<lambda>a. concat (map (\<lambda>b.
          if \<bar>XtX_tmp X (rs ! a) (cs ! b)\<bar> > thd
          then [((nat (bs * int ii) + a, nat (bs * int jj) + b), XtX_tmp X (rs ! a) (cs ! b))]
          else [])
        [0..<length cs])) [0..<length rs]))"

definition all_tiles :: "interactions \<Rightarrow> int \<Rightarrow> real \<Rightarrow> nat \<Rightarrow> ((nat \<times> nat) \<times> real) list" where
  "all_tiles X bs thd blocks =
     concat (map (\<lambda>ii. concat (map (\<lambda>jj. tile_entries X bs thd ii jj) [0..<blocks])) [0..<blocks])"

text \<open>
  \<^verbatim>\<open>filter_XtX(train_data, block_size, thd4mem, thd4comp)\<close> returns
  \<^verbatim>\<open>(XtX, rescaling, XtX.diagonal(), AA)\<close>.

  \<^verbatim>\<open>blocks = train_data.shape[1] // bs + 1\<close> raises \<^verbatim>\<open>ZeroDivisionError\<close> for
  \<open>bs = 0\<close>. When \<open>blocks \<le> 0\<close> the loops do not run and \<^verbatim>\<open>XtX_nzs\<close> is read
  before it is assigned. On a matrix with one item \<^verbatim>\<open>np.squeeze\<close> makes \<^verbatim>\<open>mu\<close> an
  array of no dimension, and the first tile raises \<^verbatim>\<open>IndexError\<close> at
  \<^verbatim>\<open>mu[bs*ii:bs*(ii+1),None]\<close>. \<^verbatim>\<open>np.squeeze(ixs[:,ix2])\<close> has shape \<open>(2, k)\<close>
  for \<open>k\<close> selected entries, except for \<open>k = 1\<close>, where it has shape \<open>(2,)\<close> and
  the constructor of \<^verbatim>\<open>AA\<close> rejects the index arrays.
\<close>

definition filter_XtX ::
  "interactions \<Rightarrow> int \<Rightarrow> real \<Rightarrow> real \<Rightarrow> error + (spmat \<times> real list \<times> real list \<times> spmat)" where
  "filter_XtX train_data block_size thd4mem thd4comp =
     (let XtXshape = nitems train_data; bs = block_size in
      if bs = 0 then Inl ZeroDivisionError
      else let blocks = int XtXshape div bs + 1 in
      if blocks \<le> 0 then Inl UnboundLocalError
      else if XtXshape = 1 then Inl IndexError
      else let XtX_nzs = all_tiles train_data bs thd4mem (nat blocks);
               AA_nzs = filter (\<lambda>t. \<bar>snd t\<bar> \<ge> thd4comp) XtX_nzs in
      if length AA_nzs = 1 then Inl TypeError
      else let XtX = csc_matrix XtXshape XtX_nzs;
               AA = csc_matrix XtXshape AA_nzs in
      Inr (XtX, map (rescaling train_data) [0..<XtXshape],
           map (\<lambda>i. val XtX (i, i)) [0..<XtXshape], AA))"







section \<open>sparse\_parameter\_estimation\<close>

subsection \<open>Steps 1, 2 and 4: the list of blocks\<close>

text \<open>
  \<^verbatim>\<open>dd_count = max(1, int(np.ceil(len(nn) * rr)))\<close>, with the product taken in the
  reals; the source takes it in float64, whose rounding is outside the model.
\<close>

definition dd_count :: "real \<Rightarrow> nat \<Rightarrow> nat" where
  "dd_count rr m = nat (max 1 \<lceil>real m * rr\<rceil>)"

text \<open>
  \<^verbatim>\<open>nn, _, vals = sparse.find(AA[:,ii])\<close>, \<^verbatim>\<open>kk = np.argsort(np.abs(vals))[::-1]\<close>,
  \<^verbatim>\<open>nn = nn[kk]\<close>: the rows of column \<open>ii\<close> with a nonzero value, by descending
  magnitude.
\<close>

definition sorted_neighbors :: "spmat \<Rightarrow> nat \<Rightarrow> nat list" where
  "sorted_neighbors AA ii =
     (let nn = nonzero_rows AA ii;
          kk = rev (np_argsort (map (\<lambda>i. \<bar>val AA (i, ii)\<bar>) nn)) in
      map (\<lambda>k. nn ! k) kk)"

text \<open>\<^verbatim>\<open>dd = nn[:dd_count]\<close>, the set D of a block.\<close>

definition retired :: "real \<Rightarrow> nat list \<Rightarrow> nat list" where
  "retired rr nn = take (dd_count rr (length nn)) nn"

text \<open>
  The specification's partition property of the retired sets \<open>ds\<close>: every item index
  below \<open>n\<close> is in exactly one of them.
\<close>

definition retired_once :: "nat \<Rightarrow> nat list list \<Rightarrow> bool" where
  "retired_once n ds = list_all (\<lambda>i. length (filter (\<lambda>d. i \<in> set d) ds) = 1) [0..<n]"

text \<open>\<^verbatim>\<open>todoIndicators[dd] = 0\<close>\<close>

definition clear_todo :: "bool list \<Rightarrow> nat list \<Rightarrow> bool list" where
  "clear_todo todoIndicators dd = fold (\<lambda>d t. t[d := False]) dd todoIndicators"

text \<open>The loop over \<^verbatim>\<open>sortedList\<close>; it returns the indicators and the list of blocks.\<close>

fun block_loop :: "real \<Rightarrow> spmat \<Rightarrow> nat list \<Rightarrow> bool list \<Rightarrow> nat list list \<Rightarrow> bool list \<times> nat list list" where
  "block_loop rr AA [] todoIndicators blockList = (todoIndicators, blockList)"
| "block_loop rr AA (ii # sortedList) todoIndicators blockList =
     (if todoIndicators ! ii
      then let nn = sorted_neighbors AA ii in
           block_loop rr AA sortedList (clear_todo todoIndicators (retired rr nn)) (blockList @ [nn])
      else block_loop rr AA sortedList todoIndicators blockList)"

text \<open>
  \<^verbatim>\<open>sortedList = np.argsort(AAcountInColumns + XtXdiag / 2.0 / np.max(XtXdiag))[::-1]\<close>.
  \<^verbatim>\<open>np.max\<close> raises on an empty array. The sum broadcasts: an \<^verbatim>\<open>XtXdiag\<close> of
  length one is repeated; for a one-column \<^verbatim>\<open>AA\<close> and a longer \<^verbatim>\<open>XtXdiag\<close> the
  list is as long as \<^verbatim>\<open>XtXdiag\<close> and the loop indexes \<^verbatim>\<open>todoIndicators\<close> out of
  range; other lengths do not broadcast.
\<close>

definition np_max :: "real list \<Rightarrow> real" where
  "np_max xs = fold max (tl xs) (hd xs)"

definition make_sortedList :: "spmat \<Rightarrow> real list \<Rightarrow> error + nat list" where
  "make_sortedList AA XtXdiag =
     (if XtXdiag = [] then Inl ValueError
      else case broadcast_to XtXdiag (dim AA) of
        Inl e \<Rightarrow> Inl (if dim AA = 1 then IndexError else e)
      | Inr d \<Rightarrow>
          Inr (rev (np_argsort
            (map (\<lambda>j. real (getnnz_col AA j) + d ! j / 2 / np_max XtXdiag) [0..<dim AA]))))"

definition make_blockList :: "real \<Rightarrow> spmat \<Rightarrow> real list \<Rightarrow> error + nat list list" where
  "make_blockList rr AA XtXdiag =
     (case make_sortedList AA XtXdiag of
        Inl e \<Rightarrow> Inl e
      | Inr sortedList \<Rightarrow>
          Inr (snd (block_loop rr AA sortedList (replicate (dim AA) True) [])))"

subsection \<open>Step 3: the dense solution of each block\<close>

text \<open>Dense matrices are lists of rows. \<^verbatim>\<open>XtX[np.ix_(nn,nn)].todense()\<close>:\<close>

definition submatrix :: "spmat \<Rightarrow> nat list \<Rightarrow> real list list" where
  "submatrix XtX nn = map (\<lambda>a. map (\<lambda>b. val XtX (a, b)) nn) nn"

text \<open>
  \<^verbatim>\<open>np.linalg.inv\<close> is a library routine. In exact arithmetic it returns the inverse
  of a regular matrix and raises \<^verbatim>\<open>LinAlgError\<close> on a singular one; the model
  computes the inverse from the determinant and the cofactors. No theorem below
  depends on how the inverse is computed.
\<close>

definition drop_nth :: "nat \<Rightarrow> 'a list \<Rightarrow> 'a list" where
  "drop_nth j xs = take j xs @ drop (Suc j) xs"

function det :: "real list list \<Rightarrow> real" where
  "det [] = 1"
| "det (r # rs) =
     sum_list (map (\<lambda>j. (- 1) ^ j * r ! j * det (map (drop_nth j) rs)) [0..<length r])"
  by pat_completeness auto
termination
  by (relation "measure length") auto

definition linalg_inv :: "real list list \<Rightarrow> error + real list list" where
  "linalg_inv M =
     (if det M = 0 then Inl LinAlgError
      else Inr (map (\<lambda>a. map (\<lambda>b.
             (- 1) ^ (a + b) * det (map (drop_nth a) (drop_nth b M)) / det M)
           [0..<length M]) [0..<length M]))"

text \<open>
  \<^verbatim>\<open>BBblock /= -np.diag(BBblock)\<close>: the vector of negated diagonal entries is
  broadcast along the last axis, so the entry in column \<open>j\<close> of every row is divided
  by the negated diagonal entry \<open>j\<close>.
\<close>

definition divide_by_neg_diag :: "real list list \<Rightarrow> real list list" where
  "divide_by_neg_diag BBblock =
     map (\<lambda>row. map (\<lambda>j. row ! j / (- (BBblock ! j ! j))) [0..<length row]) BBblock"

text \<open>
  The triples that one block appends to \<^verbatim>\<open>BBlist_ix1\<close>, \<^verbatim>\<open>BBlist_ix2\<close> and
  \<^verbatim>\<open>BBlist_val\<close>: \<^verbatim>\<open>np.meshgrid(dd, nn)\<close> flattened row by row, with the first
  \<^verbatim>\<open>dd_count\<close> columns of \<^verbatim>\<open>BBblock\<close>. Indexing \<^verbatim>\<open>XtX\<close> raises on an index
  outside its shape.
\<close>

definition block_triples :: "real \<Rightarrow> spmat \<Rightarrow> nat list \<Rightarrow> error + ((nat \<times> nat) \<times> real) list" where
  "block_triples rr XtX nn =
     (if list_ex (\<lambda>a. a \<ge> dim XtX) nn then Inl IndexError
      else case linalg_inv (submatrix XtX nn) of
        Inl e \<Rightarrow> Inl e
      | Inr P \<Rightarrow>
          (let BBblock = divide_by_neg_diag P;
               dd = retired rr nn in
           Inr (concat (map (\<lambda>a. map (\<lambda>b. ((nn ! a, dd ! b), BBblock ! a ! b))
                  [0..<length dd]) [0..<length nn]))))"

fun solve_blocks :: "real \<Rightarrow> spmat \<Rightarrow> nat list list \<Rightarrow> error + ((nat \<times> nat) \<times> real) list" where
  "solve_blocks rr XtX [] = Inr []"
| "solve_blocks rr XtX (nn # blockList) =
     (case block_triples rr XtX nn of
        Inl e \<Rightarrow> Inl e
      | Inr ts \<Rightarrow>
          (case solve_blocks rr XtX blockList of
             Inl e \<Rightarrow> Inl e
           | Inr ts' \<Rightarrow> Inr (ts @ ts')))"

subsection \<open>Final step: averaging, the diagonal, the pattern of AA\<close>

text \<open>Elementwise division of two one-dimensional arrays, with numpy's broadcasting.\<close>

definition np_divide :: "real list \<Rightarrow> real list \<Rightarrow> error + real list" where
  "np_divide xs ys =
     (if length xs = length ys then Inr (map (\<lambda>(x, y). x / y) (zip xs ys))
      else if length ys = 1 then Inr (map (\<lambda>x. x / hd ys) xs)
      else if length xs = 1 then Inr (map (\<lambda>y. hd xs / y) ys)
      else Inl ValueError)"

text \<open>
  \<^verbatim>\<open>BBsum\<close>, \<^verbatim>\<open>BBcnt\<close>, \<^verbatim>\<open>b_div = sparse.find(BBcnt)[2]\<close>,
  \<^verbatim>\<open>b_3 = sparse.find(BBsum)\<close> and
  \<^verbatim>\<open>BBavg = csc_matrix((b_3[2] / b_div, (b_3[0], b_3[1])))\<close>. \<^verbatim>\<open>sparse.find\<close> leaves
  out the entries whose value is zero, so \<^verbatim>\<open>b_3\<close> is shorter than \<^verbatim>\<open>b_div\<close> when
  the contributions to some coordinate sum to zero; the constructor raises when the
  data and the index arrays differ in length.
\<close>

definition average :: "nat \<Rightarrow> ((nat \<times> nat) \<times> real) list \<Rightarrow> error + spmat" where
  "average n ts =
     (if list_ex (\<lambda>t. \<not> in_shape n (fst t)) ts then Inl ValueError
      else let BBsum = csc_matrix n ts;
               BBcnt = csc_matrix n (map (\<lambda>t. (fst t, 1)) ts);
               b_div = map snd (find_nz BBcnt);
               b_3 = find_nz BBsum in
      case np_divide (map snd b_3) b_div of
        Inl e \<Rightarrow> Inl e
      | Inr q \<Rightarrow>
          if length q \<noteq> length b_3 then Inl ValueError
          else Inr (csc_matrix n (zip (map fst b_3) q)))"

text \<open>\<^verbatim>\<open>BBavg[ii_diag] = 0.0\<close>, with \<^verbatim>\<open>ii_diag = np.diag_indices(XtX.shape[0])\<close>.\<close>

definition zero_diag :: "spmat \<Rightarrow> spmat" where
  "zero_diag A = A\<lparr>ent := fold (\<lambda>i m. m((i, i) \<mapsto> 0)) [0..<dim A] (ent A)\<rparr>"

text \<open>
  \<^verbatim>\<open>csr_matrix((BBavg[AA.nonzero()], AA.nonzero()), shape=BBavg.shape)\<close>: one stored
  entry for each nonzero coordinate of \<^verbatim>\<open>AA\<close>, holding the value of \<^verbatim>\<open>BBavg\<close>
  there. Reading \<^verbatim>\<open>BBavg\<close> outside its shape raises. When \<^verbatim>\<open>AA\<close> has no nonzero
  entry, \<^verbatim>\<open>BBavg[AA.nonzero()]\<close> is an empty sparse matrix instead of a row of values,
  and the constructor rejects it as data with \<^verbatim>\<open>ValueError\<close>.
\<close>

definition force_pattern :: "spmat \<Rightarrow> spmat \<Rightarrow> error + spmat" where
  "force_pattern BBavg AA =
     (if list_ex (\<lambda>k. \<not> in_shape (dim BBavg) k) (nonzero AA) then Inl IndexError
      else if nonzero AA = [] then Inl ValueError
      else Inr (csc_matrix (dim BBavg) (map (\<lambda>k. (k, val BBavg k)) (nonzero AA))))"

definition sparse_parameter_estimation :: "real \<Rightarrow> spmat \<Rightarrow> spmat \<Rightarrow> real list \<Rightarrow> error + spmat" where
  "sparse_parameter_estimation rr XtX AA XtXdiag =
     (case make_blockList rr AA XtXdiag of
        Inl e \<Rightarrow> Inl e
      | Inr blockList \<Rightarrow>
     (case solve_blocks rr XtX blockList of
        Inl e \<Rightarrow> Inl e
      | Inr ts \<Rightarrow>
     (case average (dim XtX) ts of
        Inl e \<Rightarrow> Inl e
      | Inr BBavg \<Rightarrow> force_pattern (zero_diag BBavg) AA)))"

section \<open>sparse\_solution and the re-scaling\<close>

text \<open>
  The module-level names \<^verbatim>\<open>XtX\<close>, \<^verbatim>\<open>XtXdiag\<close> and \<^verbatim>\<open>AtA\<close>. The two matrices
  are objects in the store; \<^verbatim>\<open>XtXdiag\<close> is an array that nothing writes to.
\<close>

record globals =
  g_XtX :: ref
  g_XtXdiag :: "real list"
  g_AtA :: ref

text \<open>\<^verbatim>\<open>XtX[ii_diag] = d\<close>: every diagonal coordinate becomes stored, with the value from \<open>d\<close>.\<close>

definition set_diag :: "spmat \<Rightarrow> real list \<Rightarrow> error + spmat" where
  "set_diag A d =
     (case broadcast_to d (dim A) of
        Inl e \<Rightarrow> Inl e
      | Inr d' \<Rightarrow> Inr (A\<lparr>ent := fold (\<lambda>i m. m((i, i) \<mapsto> d' ! i)) [0..<dim A] (ent A)\<rparr>))"

text \<open>
  \<^verbatim>\<open>sparse_solution(rr, maxInColumn, L2reg)\<close>. The result is the returned matrix or
  the exception, together with the store as the call leaves it.
\<close>

definition sparse_solution :: "globals \<Rightarrow> heap \<Rightarrow> real \<Rightarrow> nat \<Rightarrow> real \<Rightarrow> (error + spmat) \<times> heap" where
  "sparse_solution g h rr maxInColumn L2reg =
     (case set_diag (h (g_XtX g)) (g_XtXdiag g) of
        Inl e \<Rightarrow> (Inl e, h)
      | Inr X1 \<Rightarrow>
     (let h1 = h(g_XtX g := X1) in
      case calculate_sparsity_pattern h1 (g_AtA g) maxInColumn of
        (Inl e, h2) \<Rightarrow> (Inl e, h2)
      | (Inr AA, h2) \<Rightarrow>
     (case set_diag (h2 (g_XtX g)) (map (\<lambda>d. d + L2reg) (g_XtXdiag g)) of
        Inl e \<Rightarrow> (Inl e, h2)
      | Inr X2 \<Rightarrow>
     (let h3 = h2(g_XtX g := X2) in
      (sparse_parameter_estimation rr (h3 (g_XtX g)) (h3 AA) (map (\<lambda>d. d + L2reg) (g_XtXdiag g)),
       h3)))))"

text \<open>
  \<^verbatim>\<open>BBsparse = sparse.diags(scaling).dot(BBsparse).dot(sparse.diags(rescaling))\<close>, with
  \<^verbatim>\<open>scaling = 1/rescaling\<close>: the entry at \<open>(i, j)\<close> is multiplied by \<open>scaling[i]\<close>
  and by \<open>rescaling[j]\<close>; the sparse product stores a result only where it is not
  zero. A vector whose length is not the shape of the matrix raises.
\<close>

definition rescale_back :: "real list \<Rightarrow> spmat \<Rightarrow> error + spmat" where
  "rescale_back rescaling_vec BBsparse =
     (if length rescaling_vec \<noteq> dim BBsparse then Inl ValueError
      else Inr (BBsparse\<lparr>ent := (\<lambda>k.
             case ent BBsparse k of
               None \<Rightarrow> None
             | Some v \<Rightarrow>
                 (let w = (1 / rescaling_vec ! fst k) * v * rescaling_vec ! snd k in
                  if w = 0 then None else Some w))\<rparr>))"

section \<open>Example inputs\<close>

text \<open>A regularised block of two items, used to run the block solver.\<close>

definition ex_block :: spmat where
  "ex_block = csc_matrix 2 [((0, 0), 2), ((1, 0), 1), ((0, 1), 1), ((1, 1), 1)]"

text \<open>
  Four users and three items; every item has two interactions, so that
  \<^verbatim>\<open>variance_times_userCount\<close> is \<open>1\<close> for every item.
\<close>

definition ex_train :: interactions where
  "ex_train = \<lparr>nusers = 4, nitems = 3,
     cell = (\<lambda>u i. [[1, 1, 0], [1, 0, 1], [0, 1, 0], [0, 0, 1]] ! u ! i)\<rparr>"

text \<open>The entries of its centered and rescaled cross product that are not zero, tile by tile for a block size of two.\<close>

definition ex_nzs :: "((nat \<times> nat) \<times> real) list" where
  "ex_nzs = [((0, 0), 1), ((1, 1), 1), ((1, 2), - 1), ((2, 1), - 1), ((2, 2), 1)]"



text \<open>
  Four items in a chain: each item is correlated with its neighbours only. The store
  holds \<^verbatim>\<open>XtX\<close> at address \<open>0\<close> and \<^verbatim>\<open>AtA\<close> at address \<open>1\<close>, two objects with the
  same entries, as \<^verbatim>\<open>filter_XtX\<close> returns them when the second threshold removes
  nothing.
\<close>

definition ex_entries :: "((nat \<times> nat) \<times> real) list" where
  "ex_entries =
     [((0, 0), 1), ((1, 0), 1 / 2),
      ((0, 1), 1 / 2), ((1, 1), 2), ((2, 1), 3 / 4),
      ((1, 2), 3 / 4), ((2, 2), 3), ((3, 2), 1 / 4),
      ((2, 3), 1 / 4), ((3, 3), 3 / 2)]"

definition ex_globals :: globals where
  "ex_globals = \<lparr>g_XtX = 0, g_XtXdiag = [1, 2, 3, 3 / 2], g_AtA = 1\<rparr>"

definition ex_heap :: heap where
  "ex_heap = (\<lambda>r. csc_matrix 4 ex_entries)"

text \<open>
  Two correlated items of unequal popularity: the off-diagonal entry is larger than
  the diagonal entry of the less popular item.
\<close>

definition ex_pair :: spmat where
  "ex_pair = csc_matrix 2 [((0, 0), 1), ((1, 0), 2), ((0, 1), 2), ((1, 1), 5)]"

text \<open>Three triples for a matrix of two items; two of them are for the same coordinate.\<close>

definition ex_triples :: "((nat \<times> nat) \<times> real) list" where
  "ex_triples = [((0, 1), 1), ((1, 0), 2), ((0, 1), 3)]"

section \<open>Properties\<close>

subsection \<open>The block solver\<close>

lemma divide_by_neg_diag_nth:
  assumes "a < length P" "j < length (P ! a)"
  shows "divide_by_neg_diag P ! a ! j = - (P ! a ! j) / (P ! j ! j)"
  using assms by (simp add: divide_by_neg_diag_def)

lemma length_retired_le: "length (retired rr nn) \<le> length nn"
  by (simp add: retired_def)

lemma retired_nth: "b < length (retired rr nn) \<Longrightarrow> retired rr nn ! b = nn ! b"
  by (simp add: retired_def)

lemma linalg_inv_shape:
  assumes "linalg_inv M = Inr P"
  shows "length P = length M" and "a < length M \<Longrightarrow> length (P ! a) = length M"
  using assms by (auto simp: linalg_inv_def split: if_splits)

lemma ex_block_inv: "linalg_inv (submatrix ex_block [0, 1]) = Inr [[1, - 1], [- 1, 2]]"
  by code_simp

lemma ex_block_triples:
  "block_triples 1 ex_block [0, 1] =
     Inr [((0, 0), - 1), ((0, 1), 1 / 2), ((1, 0), 1), ((1, 1), - 1)]"
  by code_simp

text \<open>
  C2, as the code has it. With \<open>P\<close> the inverse of the block's submatrix, the triple
  that a block emits for the neighbour at position \<open>a\<close> and the retired member at
  position \<open>b\<close> carries the value \<open>- P[a][b] / P[b][b]\<close>: the divisor is the diagonal
  entry of the member's column \<open>b\<close>, not the one of the neighbour's row \<open>a\<close>.
\<close>

theorem block_coefficient:
  assumes "block_triples rr XtX nn = Inr ts"
    and "linalg_inv (submatrix XtX nn) = Inr P"
    and "a < length nn" and "b < length (retired rr nn)"
    and "P ! b ! b \<noteq> 0"
  shows "((nn ! a, nn ! b), - (P ! a ! b) / (P ! b ! b)) \<in> set ts"
proof -
  have bn: "b < length nn"
    using assms(4) length_retired_le [of rr nn] by simp
  have lenP: "length P = length nn" "length (P ! a) = length nn"
    using linalg_inv_shape [OF assms(2)] assms(3) by (simp_all add: submatrix_def)
  have ts: "ts = concat (map (\<lambda>a. map (\<lambda>b. ((nn ! a, retired rr nn ! b), divide_by_neg_diag P ! a ! b))
                  [0..<length (retired rr nn)]) [0..<length nn])"
    using assms(1,2) by (simp add: block_triples_def Let_def split: if_splits)
  have "divide_by_neg_diag P ! a ! b = - (P ! a ! b) / (P ! b ! b)"
    by (rule divide_by_neg_diag_nth) (simp_all add: lenP assms(3) bn)
  moreover have "((nn ! a, retired rr nn ! b), divide_by_neg_diag P ! a ! b) \<in> set ts"
    unfolding ts using assms(3,4)
    by (auto intro!: bexI [where x = a] image_eqI [where x = b])
  ultimately show ?thesis
    using retired_nth [OF assms(4)] by simp
qed

theorem block_coefficient_witness:
  "((0, 1), 1 / 2) \<in>
     set [((0::nat, 0::nat), - 1 :: real), ((0, 1), 1 / 2), ((1, 0), 1), ((1, 1), - 1)]"
  using block_coefficient [OF ex_block_triples ex_block_inv, of 0 1]
  by (simp add: retired_def dd_count_def)

text \<open>
  C2, as the specification words it (division by the diagonal entry of the row),
  fails on the block \<open>[[2, 1], [1, 1]]\<close>: its inverse is \<open>[[1, -1], [-1, 2]]\<close>, the
  emitted coefficient at \<open>(0, 1)\<close> is \<open>1/2\<close>, and \<open>- P[0][1] / P[0][0]\<close> is \<open>1\<close>.
\<close>

theorem row_division_counterexample:
  "linalg_inv (submatrix ex_block [0, 1]) = Inr [[1, - 1], [- 1, 2]] \<and>
   block_triples 1 ex_block [0, 1] =
     Inr [((0, 0), - 1), ((0, 1), 1 / 2), ((1, 0), 1), ((1, 1), - 1)] \<and>
   - ([[1, - 1], [- 1, 2]] ! 0 ! 1) / ([[1, - 1], [- 1, 2 :: real]] ! 0 ! 0) \<noteq> (1 / 2 :: real)"
  using ex_block_inv ex_block_triples by simp

subsection \<open>Sparse matrices built from triples\<close>

lemma add_entry_apply:
  "add_entry t m k =
     (if fst t = k then Some ((case m k of None \<Rightarrow> 0 | Some w \<Rightarrow> w) + snd t) else m k)"
  by (auto simp: add_entry_def split: option.splits)

lemma fold_add_entry:
  "fold add_entry ts m k =
     (case contributions ts k of
        [] \<Rightarrow> m k
      | v # vs \<Rightarrow> Some ((case m k of None \<Rightarrow> 0 | Some w \<Rightarrow> w) + sum_list (v # vs)))"
proof (induction ts arbitrary: m)
  case Nil
  then show ?case by (simp add: contributions_def)
next
  case (Cons t ts)
  have "fold add_entry (t # ts) m k = fold add_entry ts (add_entry t m) k"
    by simp
  also have "\<dots> = (case contributions ts k of
        [] \<Rightarrow> add_entry t m k
      | v # vs \<Rightarrow> Some ((case add_entry t m k of None \<Rightarrow> 0 | Some w \<Rightarrow> w) + sum_list (v # vs)))"
    by (rule Cons.IH)
  also have "\<dots> = (case contributions (t # ts) k of
        [] \<Rightarrow> m k
      | v # vs \<Rightarrow> Some ((case m k of None \<Rightarrow> 0 | Some w \<Rightarrow> w) + sum_list (v # vs)))"
    by (cases "fst t = k") (simp_all add: add_entry_apply contributions_def split: list.splits)
  finally show ?case .
qed

lemma ent_csc_matrix:
  "ent (csc_matrix n ts) k =
     (case contributions ts k of [] \<Rightarrow> None | v # vs \<Rightarrow> Some (sum_list (v # vs)))"
  by (simp add: csc_matrix_def fold_add_entry split: list.splits)

lemma dim_csc_matrix [simp]: "dim (csc_matrix n ts) = n"
  by (simp add: csc_matrix_def)

lemma concat_map_single:
  assumes "distinct xs" and "\<And>x. x \<in> set xs \<Longrightarrow> x \<noteq> y \<Longrightarrow> f x = []"
  shows "concat (map f xs) = (if y \<in> set xs then f y else [])"
  using assms by (induction xs) auto

lemma py_slice_block:
  assumes "0 < b" "b * ii \<le> n"
  shows "py_slice (int b * int ii) (int b * (int ii + 1)) n = [b * ii..<min (b * ii + b) n]"
proof -
  have e1: "int b * int ii = int (b * ii)"
    by simp
  have e2: "int b * (int ii + 1) = int (b * ii + b)"
    by (simp add: algebra_simps)
  have 1: "clip_index (int (b * ii)) n = b * ii"
    using assms unfolding clip_index_def by (simp del: of_nat_add of_nat_mult)
  have 2: "clip_index (int (b * ii + b)) n = min (b * ii + b) n"
    unfolding clip_index_def by (simp del: of_nat_add of_nat_mult)
  show ?thesis
    by (simp only: py_slice_def e1 e2 1 2)
qed

lemma map_upt_shift: "map (\<lambda>a. f (lo + a)) [0..<hi - lo] = map f [lo..<hi]"
  by (rule nth_equalityI) simp_all

lemma tile_entries_block:
  assumes "0 < b" "b * ii \<le> nitems X" "b * jj \<le> nitems X"
  shows "tile_entries X (int b) thd ii jj =
     concat (map (\<lambda>r. concat (map (\<lambda>c.
         if \<bar>XtX_tmp X r c\<bar> > thd then [((r, c), XtX_tmp X r c)] else [])
       [b * jj..<min (b * jj + b) (nitems X)])) [b * ii..<min (b * ii + b) (nitems X)])"
proof -
  let ?N = "nitems X"
  let ?G = "\<lambda>r c. if \<bar>XtX_tmp X r c\<bar> > thd then [((r, c), XtX_tmp X r c)] else []"
  let ?rs = "[b * ii..<min (b * ii + b) ?N]"
  let ?cs = "[b * jj..<min (b * jj + b) ?N]"
  have n1: "nat (int b * int ii) = b * ii" "nat (int b * int jj) = b * jj"
    by (simp_all add: nat_mult_distrib)
  have nth_cs: "?cs ! c = b * jj + c" if "c < min (b * jj + b) ?N - b * jj" for c
    by (rule nth_upt) (use that in arith)
  have nth_rs: "?rs ! a = b * ii + a" if "a < min (b * ii + b) ?N - b * ii" for a
    by (rule nth_upt) (use that in arith)
  have inner: "concat (map (\<lambda>c. if \<bar>XtX_tmp X r (?cs ! c)\<bar> > thd
          then [((r', b * jj + c), XtX_tmp X r (?cs ! c))] else []) [0..<length ?cs])
      = concat (map (\<lambda>c. if \<bar>XtX_tmp X r c\<bar> > thd
          then [((r', c), XtX_tmp X r c)] else []) ?cs)" for r r'
  proof -
    let ?H = "\<lambda>c. if \<bar>XtX_tmp X r c\<bar> > thd then [((r', c), XtX_tmp X r c)] else []"
    have "map (\<lambda>c. if \<bar>XtX_tmp X r (?cs ! c)\<bar> > thd
          then [((r', b * jj + c), XtX_tmp X r (?cs ! c))] else []) [0..<length ?cs]
       = map (\<lambda>c. ?H (b * jj + c)) [0..<min (b * jj + b) ?N - b * jj]"
      by (rule map_cong) (simp_all add: nth_cs)
    also have "\<dots> = map ?H ?cs"
      by (rule map_upt_shift)
    finally show ?thesis by simp
  qed
  have "tile_entries X (int b) thd ii jj =
      concat (map (\<lambda>a. concat (map (\<lambda>c. if \<bar>XtX_tmp X (?rs ! a) (?cs ! c)\<bar> > thd
          then [((b * ii + a, b * jj + c), XtX_tmp X (?rs ! a) (?cs ! c))] else [])
        [0..<length ?cs])) [0..<length ?rs])"
    unfolding tile_entries_def Let_def
    by (simp only: py_slice_block [OF assms(1,2)] py_slice_block [OF assms(1,3)] n1)
  also have "\<dots> = concat (map (\<lambda>a. (\<lambda>r. concat (map (?G r) ?cs)) (b * ii + a))
        [0..<min (b * ii + b) ?N - b * ii])"
  proof -
    have "map (\<lambda>a. concat (map (\<lambda>c. if \<bar>XtX_tmp X (?rs ! a) (?cs ! c)\<bar> > thd
          then [((b * ii + a, b * jj + c), XtX_tmp X (?rs ! a) (?cs ! c))] else [])
        [0..<length ?cs])) [0..<length ?rs]
      = map (\<lambda>a. (\<lambda>r. concat (map (?G r) ?cs)) (b * ii + a)) [0..<min (b * ii + b) ?N - b * ii]"
    proof (rule map_cong)
      show "[0..<length ?rs] = [0..<min (b * ii + b) ?N - b * ii]" by simp
    next
      fix a assume "a \<in> set [0..<min (b * ii + b) ?N - b * ii]"
      then have ra: "?rs ! a = b * ii + a" by (simp add: nth_rs)
      show "concat (map (\<lambda>c. if \<bar>XtX_tmp X (?rs ! a) (?cs ! c)\<bar> > thd
          then [((b * ii + a, b * jj + c), XtX_tmp X (?rs ! a) (?cs ! c))] else [])
        [0..<length ?cs]) = (\<lambda>r. concat (map (?G r) ?cs)) (b * ii + a)"
        unfolding ra using inner [of "b * ii + a" "b * ii + a"] by simp
    qed
    then show ?thesis by (rule arg_cong [where f = concat])
  qed
  also have "\<dots> = concat (map (\<lambda>r. concat (map (?G r) ?cs)) ?rs)"
    by (rule arg_cong [where f = concat]) (rule map_upt_shift)
  finally show ?thesis .
qed

lemma filter_concat_map:
  "filter P (concat (map f xs)) = concat (map (\<lambda>x. filter P (f x)) xs)"
  by (induction xs) auto

lemma filter_tile:
  "filter (\<lambda>t. fst t = (i, j))
     (concat (map (\<lambda>r. concat (map (\<lambda>c.
         if P r c then [((r, c), v r c)] else []) [c0..<c1])) [r0..<r1]))
   = (if r0 \<le> i \<and> i < r1 \<and> c0 \<le> j \<and> j < c1 \<and> P i j then [((i, j), v i j)] else [])"
proof -
  have row: "filter (\<lambda>t. fst t = (i, j))
      (concat (map (\<lambda>c. if P r c then [((r, c), v r c)] else []) [c0..<c1]))
    = (if r = i \<and> c0 \<le> j \<and> j < c1 \<and> P i j then [((i, j), v i j)] else [])" for r
  proof -
    have "filter (\<lambda>t. fst t = (i, j))
        (concat (map (\<lambda>c. if P r c then [((r, c), v r c)] else []) [c0..<c1]))
      = concat (map (\<lambda>c. if r = i \<and> c = j \<and> P i j then [((i, j), v i j)] else []) [c0..<c1])"
      by (simp add: filter_concat comp_def if_distrib cong: if_cong)
         (rule arg_cong [where f = concat], rule map_cong, auto)
    also have "\<dots> = (if j \<in> set [c0..<c1]
        then (if r = i \<and> j = j \<and> P i j then [((i, j), v i j)] else []) else [])"
      by (rule concat_map_single) auto
    finally show ?thesis by auto
  qed
  have "filter (\<lambda>t. fst t = (i, j))
     (concat (map (\<lambda>r. concat (map (\<lambda>c.
         if P r c then [((r, c), v r c)] else []) [c0..<c1])) [r0..<r1]))
    = concat (map (\<lambda>r. filter (\<lambda>t. fst t = (i, j))
          (concat (map (\<lambda>c. if P r c then [((r, c), v r c)] else []) [c0..<c1]))) [r0..<r1])"
    by (rule filter_concat_map)
  also have "\<dots> = concat (map (\<lambda>r. if r = i \<and> c0 \<le> j \<and> j < c1 \<and> P i j
        then [((i, j), v i j)] else []) [r0..<r1])"
    by (simp only: row)
  also have "\<dots> = (if i \<in> set [r0..<r1]
        then (if i = i \<and> c0 \<le> j \<and> j < c1 \<and> P i j then [((i, j), v i j)] else []) else [])"
    by (rule concat_map_single) auto
  finally show ?thesis by auto
qed

lemma block_index:
  assumes "0 < (b::nat)" "b * ii \<le> i" "i < b * ii + b"
  shows "ii = i div b"
proof -
  have "i div b = (i - b * ii + ii * b) div b"
    using assms(2) by (simp add: mult.commute)
  also have "\<dots> = (i - b * ii) div b + ii"
    using assms(1) by simp
  also have "(i - b * ii) div b = 0"
    using assms by simp
  finally show ?thesis by simp
qed

lemma filter_all_tiles:
  assumes "0 < b"
  shows "filter (\<lambda>t. fst t = (i, j)) (all_tiles X (int b) thd (nitems X div b + 1)) =
     (if i < nitems X \<and> j < nitems X \<and> \<bar>XtX_tmp X i j\<bar> > thd
      then [((i, j), XtX_tmp X i j)] else [])"
proof -
  let ?N = "nitems X"
  let ?B = "?N div b + 1"
  let ?P = "\<lambda>t::(nat \<times> nat) \<times> real. fst t = (i, j)"
  let ?T = "\<lambda>ii jj. if b * ii \<le> i \<and> i < min (b * ii + b) ?N \<and>
                 b * jj \<le> j \<and> j < min (b * jj + b) ?N \<and> \<bar>XtX_tmp X i j\<bar> > thd
              then [((i, j), XtX_tmp X i j)] else []"
  have le: "b * ii \<le> ?N" if "ii < ?B" for ii
  proof -
    have "ii \<le> ?N div b" using that by simp
    then have "b * ii \<le> b * (?N div b)" by simp
    also have "\<dots> \<le> ?N" by simp
    finally show ?thesis .
  qed
  have tile: "filter ?P (tile_entries X (int b) thd ii jj) = ?T ii jj"
    if "ii < ?B" "jj < ?B" for ii jj
    by (simp only: tile_entries_block [OF assms le [OF that(1)] le [OF that(2)]] filter_tile)
  have row: "concat (map (\<lambda>jj. filter ?P (tile_entries X (int b) thd ii jj)) [0..<?B])
      = ?T ii (j div b)" if "ii < ?B" for ii
  proof -
    have "map (\<lambda>jj. filter ?P (tile_entries X (int b) thd ii jj)) [0..<?B]
        = map (?T ii) [0..<?B]"
      by (rule map_cong) (simp_all only: tile [OF that] atLeastLessThan_iff set_upt)
    then have "concat (map (\<lambda>jj. filter ?P (tile_entries X (int b) thd ii jj)) [0..<?B])
        = concat (map (?T ii) [0..<?B])"
      by (rule arg_cong [where f = concat])
    also have "\<dots> = (if j div b \<in> set [0..<?B] then ?T ii (j div b) else [])"
    proof (rule concat_map_single)
      show "distinct [0..<?B]" by simp
    next
      fix jj assume "jj \<in> set [0..<?B]" "jj \<noteq> j div b"
      then show "?T ii jj = []"
        using block_index [OF assms, of jj j] by auto
    qed
    also have "\<dots> = ?T ii (j div b)"
    proof (cases "j < ?N")
      case True
      then have "j div b \<le> ?N div b" by (simp add: div_le_mono)
      then have "j div b \<in> set [0..<?B]" by auto
      then show ?thesis by (simp only: if_True)
    next
      case False
      then have "?T ii (j div b) = []" by simp
      then show ?thesis by (simp only: if_cancel)
    qed
    finally show ?thesis .
  qed
  have "filter ?P (all_tiles X (int b) thd ?B)
      = concat (map (\<lambda>ii. filter ?P (concat (map (\<lambda>jj. tile_entries X (int b) thd ii jj) [0..<?B])))
          [0..<?B])"
    unfolding all_tiles_def by (rule filter_concat_map)
  also have "\<dots> = concat (map (\<lambda>ii. concat (map (\<lambda>jj. filter ?P (tile_entries X (int b) thd ii jj))
          [0..<?B])) [0..<?B])"
    by (simp only: filter_concat_map)
  also have "\<dots> = concat (map (\<lambda>ii. ?T ii (j div b)) [0..<?B])"
  proof -
    have "map (\<lambda>ii. concat (map (\<lambda>jj. filter ?P (tile_entries X (int b) thd ii jj)) [0..<?B])) [0..<?B]
        = map (\<lambda>ii. ?T ii (j div b)) [0..<?B]"
      by (rule map_cong) (simp_all only: row atLeastLessThan_iff set_upt)
    then show ?thesis by (rule arg_cong [where f = concat])
  qed
  also have "\<dots> = (if i div b \<in> set [0..<?B] then ?T (i div b) (j div b) else [])"
  proof (rule concat_map_single)
    show "distinct [0..<?B]" by simp
  next
    fix ii assume "ii \<in> set [0..<?B]" "ii \<noteq> i div b"
    then show "?T ii (j div b) = []"
      using block_index [OF assms, of ii i] by auto
  qed
  also have "\<dots> = (if i < ?N \<and> j < ?N \<and> \<bar>XtX_tmp X i j\<bar> > thd
      then [((i, j), XtX_tmp X i j)] else [])"
  proof (cases "i < ?N")
    case True
    then have "i div b \<le> ?N div b" by (simp add: div_le_mono)
    then have mem: "i div b \<in> set [0..<?B]" by auto
    have lt: "k < b * (k div b) + b" for k
    proof -
      have "k mod b < b" using assms by simp
      moreover have "b * (k div b) + k mod b = k" by simp
      ultimately show ?thesis by linarith
    qed
    have bounds: "b * (i div b) \<le> i" "i < b * (i div b) + b"
        "b * (j div b) \<le> j" "j < b * (j div b) + b"
      by (simp_all add: lt)
    have "?T (i div b) (j div b) = (if i < ?N \<and> j < ?N \<and> \<bar>XtX_tmp X i j\<bar> > thd
      then [((i, j), XtX_tmp X i j)] else [])"
      using bounds by simp
    then show ?thesis using mem by (simp only: if_True)
  next
    case False
    then have "?T (i div b) (j div b) = []" by simp
    then show ?thesis using False by (simp only: if_cancel) simp
  qed
  finally show ?thesis .
qed

subsection \<open>The example run of filter\_XtX\<close>

lemma ex_train_simps:
  "nusers ex_train = 4" "nitems ex_train = 3"
  "cell ex_train u i = [[1, 1, 0], [1, 0, 1], [0, 1, 0], [0, 0, 1]] ! u ! i"
  by (simp_all add: ex_train_def)

lemma upt_small:
  "[0..<1] = [0]" "[0..<2] = [0, 1]" "[0..<3] = [0, 1, 2]" "[0..<4] = [0, 1, 2, 3]"
  by code_simp+

lemma ex_mu: "mu ex_train 0 = 1 / 2" "mu ex_train (Suc 0) = 1 / 2" "mu ex_train 2 = 1 / 2"
  by (simp_all add: mu_def ex_train_simps upt_small)

lemma ex_rescaling: "rescaling ex_train 0 = 1" "rescaling ex_train (Suc 0) = 1" "rescaling ex_train 2 = 1"
  by (simp_all add: rescaling_def variance_times_userCount_def ex_train_simps ex_mu)

lemma ex_cross:
  "cross ex_train 0 0 = 2" "cross ex_train 0 (Suc 0) = 1" "cross ex_train 0 2 = 1"
  "cross ex_train (Suc 0) 0 = 1" "cross ex_train (Suc 0) (Suc 0) = 2" "cross ex_train (Suc 0) 2 = 0"
  "cross ex_train 2 0 = 1" "cross ex_train 2 (Suc 0) = 0" "cross ex_train 2 2 = 2"
  by (simp_all add: cross_def ex_train_simps upt_small)

lemma ex_tmp:
  "XtX_tmp ex_train 0 0 = 1" "XtX_tmp ex_train 0 (Suc 0) = 0" "XtX_tmp ex_train 0 2 = 0"
  "XtX_tmp ex_train (Suc 0) 0 = 0" "XtX_tmp ex_train (Suc 0) (Suc 0) = 1" "XtX_tmp ex_train (Suc 0) 2 = - 1"
  "XtX_tmp ex_train 2 0 = 0" "XtX_tmp ex_train 2 (Suc 0) = - 1" "XtX_tmp ex_train 2 2 = 1"
  by (simp_all add: XtX_tmp_def scaling_def ex_train_simps ex_mu ex_rescaling ex_cross)

lemma ex_tiles: "0 \<le> t1 \<Longrightarrow> t1 < 1 \<Longrightarrow> all_tiles ex_train 2 t1 2 = ex_nzs"
  by (simp add: all_tiles_def tile_entries_def py_slice_def clip_index_def ex_nzs_def
      upt_small upt_rec_numeral Let_def ex_train_simps ex_tmp)

lemma ex_csc_val: "map (\<lambda>i. val (csc_matrix 3 ex_nzs) (i, i)) [0..<3] = [1, 1, 1]"
  by code_simp

lemma ex_filter_XtX:
  assumes "0 \<le> t1" "t1 < 1" "t2 \<le> 1"
  shows "filter_XtX ex_train 2 t1 t2 =
     Inr (csc_matrix 3 ex_nzs, [1, 1, 1], [1, 1, 1], csc_matrix 3 ex_nzs)"
proof -
  have f: "filter (\<lambda>t. t2 \<le> \<bar>snd t\<bar>) ex_nzs = ex_nzs"
    using assms(3) by (simp add: ex_nzs_def)
  have l: "length ex_nzs = 5"
    by (simp add: ex_nzs_def)
  have r: "map (rescaling ex_train) [0..<3] = [1, 1, 1]"
    by (simp add: upt_small ex_rescaling)
  show ?thesis
    by (simp add: filter_XtX_def Let_def ex_train_simps ex_tiles [OF assms(1,2)] f l r ex_csc_val)
qed

subsection \<open>The thresholds of filter\_XtX\<close>

lemma all_tiles_no_items:
  assumes "nitems X = 0"
  shows "all_tiles X bs thd blocks = []"
proof -
  have "tile_entries X bs thd ii jj = []" for ii jj
    by (simp add: tile_entries_def py_slice_def clip_index_def assms)
  then show ?thesis
    by (simp add: all_tiles_def)
qed

lemma filter_nzs:
  assumes "bs \<noteq> 0" "0 < int (nitems X) div bs + 1"
  shows "filter (\<lambda>t. fst t = (i, j)) (all_tiles X bs thd (nat (int (nitems X) div bs + 1))) =
     (if i < nitems X \<and> j < nitems X \<and> \<bar>XtX_tmp X i j\<bar> > thd
      then [((i, j), XtX_tmp X i j)] else [])"
proof (cases "0 < bs")
  case True
  then obtain b where b: "bs = int b" "0 < b"
    using zero_less_imp_eq_int by auto
  have "nat (int (nitems X) div int b + 1) = nitems X div b + 1"
    by (simp add: zdiv_int [symmetric] nat_add_distrib)
  then show ?thesis
    using filter_all_tiles [OF b(2), of i j X thd] by (simp add: b(1))
next
  case False
  with assms(1) have neg: "bs < 0" by simp
  have "nitems X = 0"
  proof (rule ccontr)
    assume "nitems X \<noteq> 0"
    then have "int (nitems X) div bs < 0"
      using neg by (simp add: neg_imp_zdiv_neg_iff)
    with assms(2) show False by simp
  qed
  then show ?thesis
    by (simp add: all_tiles_no_items)
qed

lemma filter_XtX_Inr:
  assumes "filter_XtX X bs t1 t2 = Inr (XtX, resc, dg, AA)"
  shows "bs \<noteq> 0" and "0 < int (nitems X) div bs + 1"
    and "XtX = csc_matrix (nitems X) (all_tiles X bs t1 (nat (int (nitems X) div bs + 1)))"
    and "AA = csc_matrix (nitems X)
           (filter (\<lambda>t. t2 \<le> \<bar>snd t\<bar>) (all_tiles X bs t1 (nat (int (nitems X) div bs + 1))))"
    and "resc = map (rescaling X) [0..<nitems X]"
    and "dg = map (\<lambda>i. val XtX (i, i)) [0..<nitems X]"
  using assms by (auto simp: filter_XtX_def Let_def split: if_splits)

lemma filter_XtX_ent:
  assumes "filter_XtX X bs t1 t2 = Inr (XtX, resc, dg, AA)"
  shows "ent XtX (i, j) =
      (if i < nitems X \<and> j < nitems X \<and> t1 < \<bar>XtX_tmp X i j\<bar>
       then Some (XtX_tmp X i j) else None)"
    and "ent AA (i, j) =
      (if i < nitems X \<and> j < nitems X \<and> t1 < \<bar>XtX_tmp X i j\<bar> \<and> t2 \<le> \<bar>XtX_tmp X i j\<bar>
       then Some (XtX_tmp X i j) else None)"
proof -
  note r = filter_XtX_Inr [OF assms]
  let ?nzs = "all_tiles X bs t1 (nat (int (nitems X) div bs + 1))"
  have c1: "contributions ?nzs (i, j) =
      (if i < nitems X \<and> j < nitems X \<and> t1 < \<bar>XtX_tmp X i j\<bar> then [XtX_tmp X i j] else [])"
    by (simp add: contributions_def filter_nzs [OF r(1,2)])
  have "filter (\<lambda>t. fst t = (i, j)) (filter (\<lambda>t. t2 \<le> \<bar>snd t\<bar>) ?nzs) =
      filter (\<lambda>t. t2 \<le> \<bar>snd t\<bar>) (filter (\<lambda>t. fst t = (i, j)) ?nzs)"
    by (simp add: conj_commute)
  then have c2: "contributions (filter (\<lambda>t. t2 \<le> \<bar>snd t\<bar>) ?nzs) (i, j) =
      (if i < nitems X \<and> j < nitems X \<and> t1 < \<bar>XtX_tmp X i j\<bar> \<and> t2 \<le> \<bar>XtX_tmp X i j\<bar>
       then [XtX_tmp X i j] else [])"
    by (simp add: contributions_def filter_nzs [OF r(1,2)])
  show "ent XtX (i, j) =
      (if i < nitems X \<and> j < nitems X \<and> t1 < \<bar>XtX_tmp X i j\<bar>
       then Some (XtX_tmp X i j) else None)"
    by (simp add: r(3) ent_csc_matrix c1)
  show "ent AA (i, j) =
      (if i < nitems X \<and> j < nitems X \<and> t1 < \<bar>XtX_tmp X i j\<bar> \<and> t2 \<le> \<bar>XtX_tmp X i j\<bar>
       then Some (XtX_tmp X i j) else None)"
    by (simp add: r(4) ent_csc_matrix c2)
qed

text \<open>
  C8, as the code has it. In every result of \<^verbatim>\<open>filter_XtX\<close>, \<^verbatim>\<open>XtX\<close> stores exactly
  the tile entries whose magnitude is strictly above \<^verbatim>\<open>thd4mem\<close> (stated for items
  of positive \<^verbatim>\<open>variance_times_userCount\<close>, whose tile entries are finite), and
  \<^verbatim>\<open>AtA\<close> stores exactly those entries of \<^verbatim>\<open>XtX\<close> whose magnitude is at least
  \<^verbatim>\<open>thd4comp\<close>; the support of \<^verbatim>\<open>AtA\<close> is a subset of the support of \<^verbatim>\<open>XtX\<close>, and
  the two may be equal.
\<close>

theorem filter_XtX_thresholds:
  assumes "filter_XtX train_data block_size thd4mem thd4comp = Inr (XtX, resc, dg, AA)"
  shows "(\<forall>i j. 0 < variance_times_userCount train_data i \<longrightarrow>
            0 < variance_times_userCount train_data j \<longrightarrow>
            ent XtX (i, j) =
              (if i < nitems train_data \<and> j < nitems train_data \<and>
                  thd4mem < \<bar>XtX_tmp train_data i j\<bar>
               then Some (XtX_tmp train_data i j) else None)) \<and>
         (\<forall>k. ent AA k =
            (case ent XtX k of None \<Rightarrow> None
             | Some v \<Rightarrow> if thd4comp \<le> \<bar>v\<bar> then Some v else None)) \<and>
         dom (ent AA) \<subseteq> dom (ent XtX)"
proof -
  note e = filter_XtX_ent [OF assms]
  have 2: "ent AA k =
            (case ent XtX k of None \<Rightarrow> None
             | Some v \<Rightarrow> if thd4comp \<le> \<bar>v\<bar> then Some v else None)" for k
    by (cases k) (simp add: e)
  have "dom (ent AA) \<subseteq> dom (ent XtX)"
    by (auto simp: 2 split: option.splits)
  with e(1) 2 show ?thesis by blast
qed

theorem filter_XtX_thresholds_witness:
  "ent (csc_matrix 3 ex_nzs) (1, 2) = Some (- 1) \<and>
   ent (csc_matrix 3 ex_nzs) (0, 1) = None \<and>
   dom (ent (csc_matrix 3 ex_nzs)) \<subseteq> dom (ent (csc_matrix 3 ex_nzs))"
proof -
  have run: "filter_XtX ex_train 2 (1 / 25) (11 / 100) =
      Inr (csc_matrix 3 ex_nzs, [1, 1, 1], [1, 1, 1], csc_matrix 3 ex_nzs)"
    by (rule ex_filter_XtX) simp_all
  have pos: "0 < variance_times_userCount ex_train 0"
      "0 < variance_times_userCount ex_train (Suc 0)"
      "0 < variance_times_userCount ex_train 2"
    by (simp_all add: variance_times_userCount_def ex_mu ex_train_simps)
  note th = filter_XtX_thresholds [OF run]
  have "ent (csc_matrix 3 ex_nzs) (1, 2) = Some (- 1)"
    using th [THEN conjunct1, rule_format, of 1 2] pos
    by (simp add: ex_train_simps ex_tmp)
  moreover have "ent (csc_matrix 3 ex_nzs) (0, 1) = None"
    using th [THEN conjunct1, rule_format, of 0 1] pos
    by (simp add: ex_train_simps ex_tmp)
  ultimately show ?thesis
    by simp
qed

text \<open>
  C8, as the specification words it (a strict subset whenever
  \<^verbatim>\<open>thd4comp >= thd4mem\<close>), fails on the example with the notebook's thresholds
  \<open>0.04\<close> and \<open>0.11\<close>: every retained entry has magnitude \<open>1\<close>, so \<^verbatim>\<open>AtA\<close> keeps
  all of them.
\<close>

theorem strict_subset_counterexample:
  "filter_XtX ex_train 2 (1 / 25) (11 / 100) =
      Inr (csc_matrix 3 ex_nzs, [1, 1, 1], [1, 1, 1], csc_matrix 3 ex_nzs) \<and>
   (1 / 25 :: real) \<le> 11 / 100 \<and>
   \<not> dom (ent (csc_matrix 3 ex_nzs)) \<subset> dom (ent (csc_matrix 3 ex_nzs))"
proof -
  have run: "filter_XtX ex_train 2 (1 / 25) (11 / 100) =
      Inr (csc_matrix 3 ex_nzs, [1, 1, 1], [1, 1, 1], csc_matrix 3 ex_nzs)"
    by (rule ex_filter_XtX) simp_all
  then show ?thesis by simp
qed

subsection \<open>The blocked computation and the unblocked reference\<close>




















subsection \<open>Hyperparameters\<close>

lemma ex_solution_rr2:
  "map_sum id find_nz (fst (sparse_solution ex_globals ex_heap 2 3 1)) =
     Inr [((1, 0), 1 / 6), ((0, 1), 1 / 4), ((2, 1), 10 / 53), ((1, 2), 1 / 4),
          ((3, 2), 1 / 10), ((2, 3), 4 / 61)]"
  by code_simp

lemma ex_solution_rr0:
  "map_sum id find_nz (fst (sparse_solution ex_globals ex_heap 0 3 1)) =
     Inr [((1, 0), 1 / 6), ((0, 1), 1 / 4), ((2, 1), 3 / 16), ((1, 2), 1 / 4),
      ((3, 2), 1 / 10), ((2, 3), 1 / 16)]"
  by code_simp

lemma dd_count_low: "rr \<le> 0 \<Longrightarrow> dd_count rr m = 1"
proof -
  assume "rr \<le> 0"
  then have "real m * rr \<le> 0"
    by (simp add: mult_nonneg_nonpos)
  then have "\<lceil>real m * rr\<rceil> \<le> 0"
    by (simp add: ceiling_le_zero)
  then show ?thesis
    by (simp add: dd_count_def max_def)
qed

lemma dd_count_high: "1 \<le> rr \<Longrightarrow> m \<le> dd_count rr m"
proof -
  assume "1 \<le> rr"
  then have "real m * 1 \<le> real m * rr"
    by (intro mult_left_mono) simp_all
  then have "real m \<le> of_int \<lceil>real m * rr\<rceil>"
    using le_of_int_ceiling [of "real m * rr"] by linarith
  then have "int m \<le> \<lceil>real m * rr\<rceil>"
    by linarith
  then have "int m \<le> max 1 \<lceil>real m * rr\<rceil>"
    by linarith
  then show ?thesis
    unfolding dd_count_def by linarith
qed

lemma all_tiles_above:
  assumes "t \<in> set (all_tiles X bs thd blocks)"
  shows "thd < \<bar>snd t\<bar>"
  using assms by (auto simp: all_tiles_def tile_entries_def Let_def split: if_splits)

lemma second_filter_keeps_all:
  assumes "t2 \<le> thd"
  shows "filter (\<lambda>t. t2 \<le> \<bar>snd t\<bar>) (all_tiles X bs thd blocks) = all_tiles X bs thd blocks"
proof -
  have "t2 \<le> \<bar>snd t\<bar>" if "t \<in> set (all_tiles X bs thd blocks)" for t
    using all_tiles_above [OF that] assms by simp
  then show ?thesis
    by (simp add: filter_id_conv)
qed

lemma filter_XtX_low_thd4comp:
  assumes "t2 \<le> t1"
  shows "filter_XtX X bs t1 t2 = filter_XtX X bs t1 t1"
  by (simp add: filter_XtX_def Let_def second_filter_keeps_all [OF assms]
      second_filter_keeps_all [OF order_refl])

text \<open>
  C7, as the code has it. No hyperparameter is validated. With
  \<^verbatim>\<open>thd4comp <= thd4mem\<close> the run of \<^verbatim>\<open>filter_XtX\<close> is the run with
  \<^verbatim>\<open>thd4comp = thd4mem\<close>, the same result or the same exception, and a result has
  the entries of \<^verbatim>\<open>XtX\<close> in \<^verbatim>\<open>AtA\<close>; with \<open>r \<le> 0\<close> a block retires its first
  member only, with \<open>r \<ge> 1\<close> all its members; a block size that is not positive
  makes \<^verbatim>\<open>filter_XtX\<close> raise on a matrix with items: \<^verbatim>\<open>ZeroDivisionError\<close> for
  zero, and for a negative one the read of a variable that no tile has assigned.
\<close>

theorem hyperparameters_unchecked:
  "(thd4comp \<le> thd4mem \<longrightarrow>
      filter_XtX train_data block_size thd4mem thd4comp =
      filter_XtX train_data block_size thd4mem thd4mem) \<and>
   (thd4comp \<le> thd4mem \<longrightarrow>
      filter_XtX train_data block_size thd4mem thd4comp = Inr (XtX, resc, dg, AA) \<longrightarrow>
      ent AA = ent XtX) \<and>
   (rr_low \<le> 0 \<longrightarrow> retired rr_low nn = take 1 nn) \<and>
   (1 \<le> rr_high \<longrightarrow> retired rr_high nn = nn) \<and>
   (bs \<le> 0 \<longrightarrow> 0 < nitems X \<longrightarrow>
      filter_XtX X bs t_mem t_comp =
        Inl (if bs = 0 then ZeroDivisionError else UnboundLocalError))"
proof (intro conjI impI)
  assume "thd4comp \<le> thd4mem"
  then show "filter_XtX train_data block_size thd4mem thd4comp =
      filter_XtX train_data block_size thd4mem thd4mem"
    by (rule filter_XtX_low_thd4comp)
next
  assume le: "thd4comp \<le> thd4mem"
    and run: "filter_XtX train_data block_size thd4mem thd4comp = Inr (XtX, resc, dg, AA)"
  show "ent AA = ent XtX"
  proof
    fix k :: "nat \<times> nat"
    show "ent AA k = ent XtX k"
      using le by (cases k) (simp add: filter_XtX_ent [OF run])
  qed
next
  assume "rr_low \<le> 0"
  then show "retired rr_low nn = take 1 nn"
    by (simp add: retired_def dd_count_low)
next
  assume "1 \<le> rr_high"
  then show "retired rr_high nn = nn"
    by (simp add: retired_def dd_count_high)
next
  assume bs: "bs \<le> 0" and n: "0 < nitems X"
  show "filter_XtX X bs t_mem t_comp =
        Inl (if bs = 0 then ZeroDivisionError else UnboundLocalError)"
  proof (cases "bs = 0")
    case True
    then show ?thesis by (simp add: filter_XtX_def)
  next
    case False
    with bs have "bs < 0" by simp
    then have "int (nitems X) div bs < 0"
      using n by (simp add: neg_imp_zdiv_neg_iff)
    then show ?thesis
      using False by (simp add: filter_XtX_def Let_def)
  qed
qed

theorem hyperparameters_unchecked_witness:
  "(1 / 25 :: real) \<le> 11 / 100 \<and>
   filter_XtX ex_train 2 (11 / 100) (1 / 25) = filter_XtX ex_train 2 (11 / 100) (11 / 100) \<and>
   filter_XtX ex_train 2 (11 / 100) (1 / 25) =
     Inr (csc_matrix 3 ex_nzs, [1, 1, 1], [1, 1, 1], csc_matrix 3 ex_nzs) \<and>
   ent (csc_matrix 3 ex_nzs) = ent (csc_matrix 3 ex_nzs) \<and>
   retired 0 [2, 1, 3] = [2] \<and>
   retired 2 [2, 1, 3] = [2, 1, 3] \<and>
   filter_XtX ex_train 0 (1 / 25) (11 / 100) = Inl ZeroDivisionError \<and>
   filter_XtX ex_train (- 2) (1 / 25) (11 / 100) = Inl UnboundLocalError"
proof -
  have run: "filter_XtX ex_train 2 (11 / 100) (1 / 25) =
      Inr (csc_matrix 3 ex_nzs, [1, 1, 1], [1, 1, 1], csc_matrix 3 ex_nzs)"
    by (rule ex_filter_XtX) simp_all
  note th = hyperparameters_unchecked [of "1 / 25" "11 / 100" ex_train 2 "csc_matrix 3 ex_nzs"
        "[1, 1, 1]" "[1, 1, 1]" "csc_matrix 3 ex_nzs" 0 "[2, 1, 3]" 2]
  have 1: "filter_XtX ex_train 2 (11 / 100) (1 / 25) = filter_XtX ex_train 2 (11 / 100) (11 / 100)"
    using th [of 0 ex_train "1 / 25" "11 / 100", THEN conjunct1] by simp
  have 2: "retired 0 [2, 1, 3] = [2]" "retired 2 [2, 1, 3] = [2, 1, 3]"
    using th [of 0 ex_train "1 / 25" "11 / 100"] by simp_all
  have 3: "filter_XtX ex_train 0 (1 / 25) (11 / 100) = Inl ZeroDivisionError"
    using th [of 0 ex_train "1 / 25" "11 / 100"] by (simp add: ex_train_simps)
  have 4: "filter_XtX ex_train (- 2) (1 / 25) (11 / 100) = Inl UnboundLocalError"
    using th [of "- 2" ex_train "1 / 25" "11 / 100"] by (simp add: ex_train_simps)
  from run 1 2 3 4 show ?thesis
    by simp
qed

text \<open>
  C7, as the specification words it (every run with invalid hyperparameters
  raises), fails: \<^verbatim>\<open>filter_XtX\<close> returns with \<^verbatim>\<open>thd4comp = 0.04 < thd4mem = 0.11\<close>,
  and \<^verbatim>\<open>sparse_solution\<close> returns a weight matrix with \<open>r = 2\<close> and with \<open>r = 0\<close>.
\<close>

theorem invalid_hyperparameters_counterexample:
  "filter_XtX ex_train 2 (11 / 100) (1 / 25) =
     Inr (csc_matrix 3 ex_nzs, [1, 1, 1], [1, 1, 1], csc_matrix 3 ex_nzs) \<and>
   map_sum id find_nz (fst (sparse_solution ex_globals ex_heap 2 3 1)) =
     Inr [((1, 0), 1 / 6), ((0, 1), 1 / 4), ((2, 1), 10 / 53), ((1, 2), 1 / 4),
          ((3, 2), 1 / 10), ((2, 3), 4 / 61)] \<and>
   map_sum id find_nz (fst (sparse_solution ex_globals ex_heap 0 3 1)) =
     Inr [((1, 0), 1 / 6), ((0, 1), 1 / 4), ((2, 1), 3 / 16), ((1, 2), 1 / 4),
          ((3, 2), 1 / 10), ((2, 3), 1 / 16)]"
proof -
  have run: "filter_XtX ex_train 2 (11 / 100) (1 / 25) =
      Inr (csc_matrix 3 ex_nzs, [1, 1, 1], [1, 1, 1], csc_matrix 3 ex_nzs)"
    by (rule ex_filter_XtX) simp_all
  show ?thesis
    using run ex_solution_rr2 ex_solution_rr0 by simp
qed

subsection \<open>The list of blocks\<close>

lemma length_clear_todo [simp]: "length (clear_todo t dd) = length t"
  unfolding clear_todo_def by (induction dd arbitrary: t) simp_all

lemma clear_todo_nth:
  "j < length t \<Longrightarrow> clear_todo t dd ! j = (t ! j \<and> j \<notin> set dd)"
  unfolding clear_todo_def
proof (induction dd arbitrary: t)
  case Nil
  then show ?case by simp
next
  case (Cons d dd)
  then show ?case
    by (cases "j = d") (auto simp: nth_list_update)
qed

lemma block_loop_cover:
  assumes "block_loop rr AA sl todo bl = (todo', bl')"
    and "\<And>j. j < length todo \<Longrightarrow> \<not> todo ! j \<Longrightarrow> \<exists>nn\<in>set bl. j \<in> set (retired rr nn)"
  shows "set bl \<subseteq> set bl' \<and>
     (\<forall>i\<in>set sl. i < length todo \<longrightarrow> i \<in> set (retired rr (sorted_neighbors AA i)) \<longrightarrow>
        (\<exists>nn\<in>set bl'. i \<in> set (retired rr nn)))"
  using assms
proof (induction sl arbitrary: todo bl)
  case Nil
  then show ?case by simp
next
  case (Cons ii sl)
  show ?case
  proof (cases "todo ! ii")
    case True
    let ?nn = "sorted_neighbors AA ii"
    let ?todo = "clear_todo todo (retired rr ?nn)"
    let ?bl = "bl @ [?nn]"
    have run: "block_loop rr AA sl ?todo ?bl = (todo', bl')"
      using Cons.prems(1) True by (simp add: Let_def)
    have inv: "\<exists>nn\<in>set ?bl. j \<in> set (retired rr nn)"
      if "j < length ?todo" "\<not> ?todo ! j" for j
    proof (cases "j \<in> set (retired rr ?nn)")
      case True
      then show ?thesis by simp
    next
      case False
      with that have "\<not> todo ! j" by (simp add: clear_todo_nth)
      with that(1) Cons.prems(2) [of j] show ?thesis by auto
    qed
    have ih: "set ?bl \<subseteq> set bl' \<and>
       (\<forall>i\<in>set sl. i < length ?todo \<longrightarrow> i \<in> set (retired rr (sorted_neighbors AA i)) \<longrightarrow>
          (\<exists>nn\<in>set bl'. i \<in> set (retired rr nn)))"
      by (rule Cons.IH [OF run inv])
    then have "?nn \<in> set bl'" by auto
    with ih show ?thesis by auto
  next
    case False
    have run: "block_loop rr AA sl todo bl = (todo', bl')"
      using Cons.prems(1) False by simp
    have ih: "set bl \<subseteq> set bl' \<and>
       (\<forall>i\<in>set sl. i < length todo \<longrightarrow> i \<in> set (retired rr (sorted_neighbors AA i)) \<longrightarrow>
          (\<exists>nn\<in>set bl'. i \<in> set (retired rr nn)))"
      by (rule Cons.IH [OF run Cons.prems(2)])
    have "\<exists>nn\<in>set bl'. ii \<in> set (retired rr nn)" if "ii < length todo"
      using Cons.prems(2) [OF that False] ih by auto
    with ih show ?thesis by auto
  qed
qed

lemma set_np_argsort [simp]: "set (np_argsort a) = {0..<length a}"
  by (simp add: np_argsort_def)

lemma make_sortedList_set:
  assumes "make_sortedList AA XtXdiag = Inr sl"
  shows "set sl = {0..<dim AA}"
  using assms
  by (auto simp: make_sortedList_def split: if_splits sum.splits)

text \<open>
  C1, as the code has it. An item that lies in the retired prefix of its own sorted
  neighbour list is in the retired set of at least one emitted block: when the loop
  reaches the item, either an earlier block has retired it or the item anchors a
  block of its own. Nothing keeps a later block from retiring an item again, so the
  retired sets cover such items without being disjoint.
\<close>

theorem retired_cover:
  assumes "make_blockList rr AA XtXdiag = Inr blockList"
    and "i < dim AA"
    and "i \<in> set (retired rr (sorted_neighbors AA i))"
  shows "\<exists>nn\<in>set blockList. i \<in> set (retired rr nn)"
proof -
  from assms(1) obtain sl where sl: "make_sortedList AA XtXdiag = Inr sl"
    and bl: "blockList = snd (block_loop rr AA sl (replicate (dim AA) True) [])"
    by (auto simp: make_blockList_def split: sum.splits)
  obtain todo' where run: "block_loop rr AA sl (replicate (dim AA) True) [] = (todo', blockList)"
    using bl by (cases "block_loop rr AA sl (replicate (dim AA) True) []") simp
  have "set [] \<subseteq> set blockList \<and>
     (\<forall>i\<in>set sl. i < length (replicate (dim AA) True) \<longrightarrow>
        i \<in> set (retired rr (sorted_neighbors AA i)) \<longrightarrow>
        (\<exists>nn\<in>set blockList. i \<in> set (retired rr nn)))"
    by (rule block_loop_cover [OF run]) simp
  moreover have "i \<in> set sl"
    using make_sortedList_set [OF sl] assms(2) by simp
  ultimately show ?thesis
    using assms(2,3) by auto
qed

lemma ex_blockList:
  "make_blockList 1 (csc_matrix 4 ex_entries) [2, 3, 4, 5 / 2] = Inr [[2, 1, 3], [0, 1]]"
  by code_simp

theorem retired_cover_witness:
  "\<exists>nn\<in>set [[2, 1, 3], [0, 1 :: nat]]. 0 \<in> set (retired 1 nn)"
proof -
  have "0 \<in> set (retired 1 (sorted_neighbors (csc_matrix 4 ex_entries) 0))"
    by code_simp
  then show ?thesis
    using retired_cover [OF ex_blockList, of 0] by simp
qed

text \<open>
  C1, as the specification words it (each item in the retired set of exactly one
  block), fails on the chain of four items with \<open>r = 1\<close>: item 2 anchors the block
  \<open>[2, 1, 3]\<close>, item 0 anchors \<open>[0, 1]\<close>, and item 1 is retired by both. On the pair
  of items with \<open>r = 1/2\<close> both blocks are \<open>[1, 0]\<close> and both retire item 1 only.
\<close>

theorem retired_once_counterexample:
  "make_blockList 1 (csc_matrix 4 ex_entries) [2, 3, 4, 5 / 2] = Inr [[2, 1, 3], [0, 1]] \<and>
   map (retired 1) [[2, 1, 3], [0, 1]] = [[2, 1, 3], [0, 1]] \<and>
   \<not> retired_once 4 (map (retired 1) [[2, 1, 3], [0, 1]]) \<and>
   make_blockList (1 / 2) ex_pair [2, 6] = Inr [[1, 0], [1, 0]] \<and>
   map (retired (1 / 2)) [[1, 0], [1, 0]] = [[1], [1]] \<and>
   \<not> retired_once 2 (map (retired (1 / 2)) [[1, 0], [1, 0]])"
proof -
  have "map (retired 1) [[2, 1, 3], [0, 1]] = [[2, 1, 3], [0, 1 :: nat]]"
    by code_simp
  moreover have "\<not> retired_once 4 (map (retired 1) [[2, 1, 3], [0, 1]])"
    by code_simp
  moreover have "make_blockList (1 / 2) ex_pair [2, 6] = Inr [[1, 0], [1, 0]]"
    by code_simp
  moreover have "map (retired (1 / 2)) [[1, 0], [1, 0]] = [[1], [1 :: nat]]"
    by code_simp
  moreover have "\<not> retired_once 2 (map (retired (1 / 2)) [[1, 0], [1, 0]])"
    by code_simp
  ultimately show ?thesis
    using ex_blockList by simp
qed

subsection \<open>Reading sparse matrices\<close>

lemma set_coords: "set (coords n) = {k. in_shape n k}"
  by (auto simp: coords_def in_shape_def)

lemma distinct_coords: "distinct (coords n)"
  unfolding coords_def
  by (rule distinct_concat) (auto simp: distinct_map inj_on_def)

lemma distinct_nonzero: "distinct (nonzero A)"
  by (simp add: nonzero_def distinct_coords)

lemma set_nonzero:
  "set (nonzero A) = {k. in_shape (dim A) k \<and> ent A k \<noteq> None \<and> val A k \<noteq> 0}"
  by (auto simp: nonzero_def set_coords)

lemma filter_eq_distinct:
  "distinct ks \<Longrightarrow> filter (\<lambda>x. x = k) ks = (if k \<in> set ks then [k] else [])"
  by (induction ks) auto

lemma contributions_keyed:
  assumes "distinct ks"
  shows "contributions (map (\<lambda>k. (k, F k)) ks) k = (if k \<in> set ks then [F k] else [])"
proof -
  have "filter (\<lambda>t. fst t = k) (map (\<lambda>k. (k, F k)) ks) = map (\<lambda>k. (k, F k)) (filter (\<lambda>x. x = k) ks)"
    by (simp add: filter_map comp_def)
  then show ?thesis
    by (simp add: contributions_def filter_eq_distinct [OF assms])
qed

lemma ent_csc_keyed:
  assumes "distinct ks"
  shows "ent (csc_matrix n (map (\<lambda>k. (k, F k)) ks)) k = (if k \<in> set ks then Some (F k) else None)"
  by (simp add: ent_csc_matrix contributions_keyed [OF assms])

lemma contributions_ones:
  "contributions (map (\<lambda>t. (fst t, 1)) ts) k = replicate (length (contributions ts k)) 1"
  unfolding contributions_def by (induction ts) auto

lemma val_csc_matrix:
  "val (csc_matrix n ts) k = sum_list (contributions ts k)"
  by (simp add: val_def ent_csc_matrix split: list.splits)

lemma ent_csc_None: "ent (csc_matrix n ts) k = None \<longleftrightarrow> contributions ts k = []"
  by (simp add: ent_csc_matrix split: list.splits)

lemma val_count:
  "val (csc_matrix n (map (\<lambda>t. (fst t, 1)) ts)) k = real (length (contributions ts k))"
  by (simp add: val_csc_matrix contributions_ones sum_list_replicate)

lemma nonzero_cnt:
  "nonzero (csc_matrix n (map (\<lambda>t. (fst t, 1)) ts)) =
     filter (\<lambda>k. contributions ts k \<noteq> []) (coords n)"
  unfolding nonzero_def
  by (rule filter_cong) (auto simp: val_count ent_csc_None contributions_ones)

lemma nonzero_sum:
  "nonzero (csc_matrix n ts) =
     filter (\<lambda>k. contributions ts k \<noteq> [] \<and> sum_list (contributions ts k) \<noteq> 0) (coords n)"
  unfolding nonzero_def
  by (rule filter_cong) (auto simp: val_csc_matrix ent_csc_None)

lemma filter_conj_same_length:
  assumes "length (filter (\<lambda>x. P x \<and> Q x) xs) = length (filter P xs)"
  shows "filter (\<lambda>x. P x \<and> Q x) xs = filter P xs"
  using assms
proof (induction xs)
  case Nil
  then show ?case by simp
next
  case (Cons x xs)
  have le: "length (filter (\<lambda>x. P x \<and> Q x) xs) \<le> length (filter P xs)"
    by (induction xs) auto
  show ?case
  proof (cases "P x")
    case True
    show ?thesis
    proof (cases "Q x")
      case True
      with \<open>P x\<close> Cons show ?thesis by simp
    next
      case False
      with \<open>P x\<close> Cons.prems le show ?thesis by simp
    qed
  next
    case False
    with Cons show ?thesis by simp
  qed
qed

lemma zip_quotients:
  "zip (map f xs) (map (\<lambda>(x, y). x / y) (zip (map g xs) (map h xs))) =
     map (\<lambda>k. (f k, g k / h k)) xs"
  by (induction xs) simp_all

subsection \<open>Averaging\<close>

lemma length_filter_conj_le:
  "length (filter (\<lambda>x. P x \<and> Q x) xs) \<le> length (filter P xs)"
  by (induction xs) auto

lemma average_Inr:
  assumes "average n ts = Inr BBavg"
  shows "dim BBavg = n"
    and "ent BBavg k =
      (if k \<in> set (nonzero (csc_matrix n ts))
       then Some (sum_list (contributions ts k) / real (length (contributions ts k)))
       else None)"
    and "\<And>t. t \<in> set ts \<Longrightarrow> in_shape n (fst t)"
proof -
  let ?S = "csc_matrix n ts"
  let ?C = "csc_matrix n (map (\<lambda>t. (fst t, 1)) ts)"
  let ?ks = "nonzero ?S"
  have guard: "\<not> list_ex (\<lambda>t. \<not> in_shape n (fst t)) ts"
    using assms by (auto simp: average_def split: if_splits)
  then show "\<And>t. t \<in> set ts \<Longrightarrow> in_shape n (fst t)"
    by (auto simp: list_ex_iff)
  have fst3: "map fst (find_nz ?S) = ?ks" and snd3: "map snd (find_nz ?S) = map (val ?S) ?ks"
    and div: "map snd (find_nz ?C) = map (val ?C) (nonzero ?C)"
    by (simp_all add: find_nz_def comp_def)
  have len3: "length (find_nz ?S) = length ?ks"
    by (simp add: find_nz_def)
  have "\<exists>q. np_divide (map (val ?S) ?ks) (map (val ?C) (nonzero ?C)) = Inr q \<and>
      length q = length ?ks \<and> BBavg = csc_matrix n (zip ?ks q)"
    using assms guard
    by (auto simp: average_def Let_def fst3 snd3 div len3 split: if_splits sum.splits)
  then obtain q where q: "np_divide (map (val ?S) ?ks) (map (val ?C) (nonzero ?C)) = Inr q"
    and lq: "length q = length ?ks"
    and B: "BBavg = csc_matrix n (zip ?ks q)"
    by blast
  show "dim BBavg = n"
    by (simp add: B)
  have ks: "?ks = filter (\<lambda>k. contributions ts k \<noteq> [] \<and> sum_list (contributions ts k) \<noteq> 0) (coords n)"
    by (rule nonzero_sum)
  have cs: "nonzero ?C = filter (\<lambda>k. contributions ts k \<noteq> []) (coords n)"
    by (rule nonzero_cnt)
  have le: "length ?ks \<le> length (nonzero ?C)"
    unfolding ks cs by (rule length_filter_conj_le)
  have "zip ?ks q =
      map (\<lambda>k. (k, sum_list (contributions ts k) / real (length (contributions ts k)))) ?ks"
  proof (cases "length ?ks = length (nonzero ?C)")
    case True
    then have same: "nonzero ?C = ?ks"
      unfolding ks cs by (rule filter_conj_same_length [symmetric])
    have "q = map (\<lambda>(x, y). x / y) (zip (map (val ?S) ?ks) (map (val ?C) ?ks))"
      using q by (simp add: np_divide_def same)
    then have "zip ?ks q =
        zip (map (\<lambda>k. k) ?ks) (map (\<lambda>(x, y). x / y) (zip (map (val ?S) ?ks) (map (val ?C) ?ks)))"
      by simp
    also have "\<dots> = map (\<lambda>k. (k, val ?S k / val ?C k)) ?ks"
      by (rule zip_quotients)
    finally show ?thesis
      by (simp add: val_csc_matrix contributions_ones sum_list_replicate)
  next
    case False
    have "length ?ks \<noteq> 1"
    proof
      assume one: "length ?ks = 1"
      with False q have "length q = length (nonzero ?C)"
        by (auto simp: np_divide_def split: if_splits)
      with lq one False show False by simp
    qed
    moreover have "length (nonzero ?C) = 1"
      using False q \<open>length ?ks \<noteq> 1\<close> by (auto simp: np_divide_def split: if_splits)
    ultimately have "?ks = []"
      using le by (cases ?ks) auto
    then show ?thesis by simp
  qed
  then show "ent BBavg k =
      (if k \<in> set (nonzero (csc_matrix n ts))
       then Some (sum_list (contributions ts k) / real (length (contributions ts k)))
       else None)"
    by (simp only: B ent_csc_keyed [OF distinct_nonzero])
qed

lemma contributions_nonempty_iff:
  "contributions ts k \<noteq> [] \<longleftrightarrow> k \<in> fst ` set ts"
  by (auto simp: contributions_def filter_empty_conv)

lemma average_mean:
  assumes "average n ts = Inr BBavg"
  shows "val BBavg k =
     (if contributions ts k = [] then 0
      else sum_list (contributions ts k) / real (length (contributions ts k)))"
proof (cases "contributions ts k = []")
  case True
  then have "k \<notin> set (nonzero (csc_matrix n ts))"
    by (simp add: set_nonzero ent_csc_None)
  then show ?thesis
    using True by (simp add: val_def average_Inr(2) [OF assms])
next
  case False
  show ?thesis
  proof (cases "k \<in> set (nonzero (csc_matrix n ts))")
    case True
    then show ?thesis
      using False by (simp add: val_def average_Inr(2) [OF assms])
  next
    case out: False
    from \<open>contributions ts k \<noteq> []\<close> obtain t where "t \<in> set ts" "fst t = k"
      by (auto simp: contributions_nonempty_iff)
    then have "in_shape n k"
      using average_Inr(3) [OF assms, of t] by simp
    with out False have "sum_list (contributions ts k) = 0"
      by (simp add: set_nonzero ent_csc_None val_csc_matrix)
    then show ?thesis
      using out False by (simp add: val_def average_Inr(2) [OF assms])
  qed
qed

lemma average_dom:
  assumes "average n ts = Inr BBavg" and "ent BBavg k \<noteq> None"
  shows "contributions ts k \<noteq> []"
  using assms(2) by (auto simp: average_Inr(2) [OF assms(1)] set_nonzero ent_csc_None split: if_splits)

lemma mset_contributions:
  "mset ts' = mset ts \<Longrightarrow> mset (contributions ts' k) = mset (contributions ts k)"
  by (simp add: contributions_def)

lemma fold_add_entry_empty:
  "fold add_entry ts Map.empty k =
     (if contributions ts k = [] then None else Some (sum_list (contributions ts k)))"
  by (simp add: fold_add_entry split: list.splits)

lemma csc_matrix_mset:
  assumes "mset ts' = mset ts"
  shows "csc_matrix n ts' = csc_matrix n ts"
proof -
  have "fold add_entry ts' Map.empty k = fold add_entry ts Map.empty k" for k
  proof -
    have m: "mset (contributions ts' k) = mset (contributions ts k)"
      by (rule mset_contributions [OF assms])
    then have "sum_list (contributions ts' k) = sum_list (contributions ts k)"
      by (metis sum_mset_sum_list)
    moreover have "contributions ts' k = [] \<longleftrightarrow> contributions ts k = []"
      using m by (metis mset_zero_iff)
    ultimately show ?thesis
      by (simp add: fold_add_entry_empty)
  qed
  then show ?thesis
    by (simp add: csc_matrix_def fun_eq_iff)
qed

lemma average_mset:
  assumes "mset ts' = mset ts"
  shows "average n ts' = average n ts"
proof -
  have 1: "csc_matrix n ts' = csc_matrix n ts"
    by (rule csc_matrix_mset [OF assms])
  have "mset (map (\<lambda>t. (fst t, 1::real)) ts') = mset (map (\<lambda>t. (fst t, 1)) ts)"
    using assms by simp
  then have 2: "csc_matrix n (map (\<lambda>t. (fst t, 1)) ts') = csc_matrix n (map (\<lambda>t. (fst t, 1)) ts)"
    by (rule csc_matrix_mset)
  have "set ts' = set ts"
    using assms by (rule mset_eq_setD)
  then have 3: "list_ex (\<lambda>t. \<not> in_shape n (fst t)) ts' = list_ex (\<lambda>t. \<not> in_shape n (fst t)) ts"
    by (simp add: list_ex_iff)
  show ?thesis
    unfolding average_def by (simp only: 1 2 3)
qed

lemma solve_blocks_Inr:
  assumes "solve_blocks rr XtX bl = Inr ts"
  shows "(\<forall>nn\<in>set bl. \<exists>t. block_triples rr XtX nn = Inr t) \<and>
         ts = concat (map (\<lambda>nn. projr (block_triples rr XtX nn)) bl)"
  using assms
  by (induction bl arbitrary: ts) (auto split: sum.splits)

lemma solve_blocks_all:
  assumes "\<forall>nn\<in>set bl. \<exists>t. block_triples rr XtX nn = Inr t"
  shows "solve_blocks rr XtX bl = Inr (concat (map (\<lambda>nn. projr (block_triples rr XtX nn)) bl))"
  using assms
  by (induction bl) (auto split: sum.splits)

lemma mset_concat_map:
  "mset xs' = mset xs \<Longrightarrow> mset (concat (map f xs')) = mset (concat (map f xs))"
proof -
  assume a: "mset xs' = mset xs"
  have "mset (concat (map f ys)) = (\<Sum>x\<in>#mset ys. mset (f x))" for ys
    by (induction ys) simp_all
  then show ?thesis by (simp add: a)
qed

lemma solve_blocks_mset:
  assumes "solve_blocks rr XtX bl = Inr ts" and "mset bl' = mset bl"
  shows "\<exists>ts'. solve_blocks rr XtX bl' = Inr ts' \<and> mset ts' = mset ts"
proof -
  note r = solve_blocks_Inr [OF assms(1)]
  have "set bl' = set bl"
    using assms(2) by (rule mset_eq_setD)
  with r have "solve_blocks rr XtX bl' =
      Inr (concat (map (\<lambda>nn. projr (block_triples rr XtX nn)) bl'))"
    by (intro solve_blocks_all) simp
  moreover have "mset (concat (map (\<lambda>nn. projr (block_triples rr XtX nn)) bl')) = mset ts"
    using r mset_concat_map [OF assms(2)] by simp
  ultimately show ?thesis by blast
qed

subsection \<open>The averaged and the returned matrix\<close>

lemma fold_diag:
  "fold (\<lambda>i m. m((i, i) \<mapsto> f i)) [0..<n] m k =
     (if fst k = snd k \<and> fst k < n then Some (f (fst k)) else m k)"
proof (induction n)
  case 0
  then show ?case by simp
next
  case (Suc n)
  then show ?case
    by (cases k) (auto simp: less_Suc_eq)
qed

lemma ent_zero_diag:
  "ent (zero_diag A) k = (if fst k = snd k \<and> fst k < dim A then Some 0 else ent A k)"
  by (simp add: zero_diag_def fold_diag)

lemma dim_zero_diag [simp]: "dim (zero_diag A) = dim A"
  by (simp add: zero_diag_def)

lemma force_pattern_Inr:
  assumes "force_pattern Z AA = Inr BB"
  shows "dim BB = dim Z"
    and "ent BB k = (if k \<in> set (nonzero AA) then Some (val Z k) else None)"
    and "k \<in> set (nonzero AA) \<Longrightarrow> in_shape (dim Z) k"
proof -
  have B: "BB = csc_matrix (dim Z) (map (\<lambda>k. (k, val Z k)) (nonzero AA))"
    and g: "\<not> list_ex (\<lambda>k. \<not> in_shape (dim Z) k) (nonzero AA)"
    using assms by (auto simp: force_pattern_def split: if_splits)
  show "dim BB = dim Z"
    by (simp add: B)
  show "ent BB k = (if k \<in> set (nonzero AA) then Some (val Z k) else None)"
    by (simp only: B ent_csc_keyed [OF distinct_nonzero])
  show "k \<in> set (nonzero AA) \<Longrightarrow> in_shape (dim Z) k"
    using g by (auto simp: list_ex_iff)
qed

lemma sparse_parameter_estimation_Inr:
  assumes "sparse_parameter_estimation rr XtX AA XtXdiag = Inr BB"
  shows "\<exists>bl ts BBavg. make_blockList rr AA XtXdiag = Inr bl \<and>
      solve_blocks rr XtX bl = Inr ts \<and> average (dim XtX) ts = Inr BBavg \<and>
      force_pattern (zero_diag BBavg) AA = Inr BB"
  using assms by (auto simp: sparse_parameter_estimation_def split: sum.splits)

lemma val_forced:
  assumes "force_pattern (zero_diag BBavg) AA = Inr BB"
  shows "val BB k =
     (if k \<in> set (nonzero AA) \<and> fst k \<noteq> snd k then val BBavg k else 0)"
proof (cases "k \<in> set (nonzero AA)")
  case True
  then have "in_shape (dim BBavg) k"
    using force_pattern_Inr(3) [OF assms] by simp
  then show ?thesis
    using True
    by (simp add: val_def force_pattern_Inr(2) [OF assms] ent_zero_diag in_shape_def)
next
  case False
  then show ?thesis
    by (simp add: val_def force_pattern_Inr(2) [OF assms])
qed

lemma rescale_back_Inr:
  assumes "rescale_back r BB = Inr W"
  shows "val W k = (1 / r ! fst k) * val BB k * r ! snd k"
    and "ent W k \<noteq> None \<Longrightarrow> ent BB k \<noteq> None"
proof -
  have W: "W = BB\<lparr>ent := (\<lambda>k. case ent BB k of None \<Rightarrow> None
             | Some v \<Rightarrow> (let w = (1 / r ! fst k) * v * r ! snd k in
                  if w = 0 then None else Some w))\<rparr>"
    using assms by (auto simp: rescale_back_def split: if_splits)
  show "val W k = (1 / r ! fst k) * val BB k * r ! snd k"
    by (simp add: W val_def Let_def split: option.splits)
  show "ent W k \<noteq> None \<Longrightarrow> ent BB k \<noteq> None"
    by (auto simp: W split: option.splits)
qed

text \<open>
  C6. When the averaging statement produces \<^verbatim>\<open>BBavg\<close>, its value at every coordinate
  that some triple names is the arithmetic mean of the values of all triples for that
  coordinate. The matrix depends on the triples as a multiset only: it is the same
  for every reordering of the triples, and for every reordering of the list of
  blocks, whose triples are then appended in another order. In the returned matrix,
  which has the diagonal set to zero and the pattern of \<^verbatim>\<open>AA\<close>, the off-diagonal
  coordinates of that pattern still hold the mean.

  The averaging statement raises when the values for some coordinate sum to zero
  while another coordinate has values (\<^verbatim>\<open>sparse.find\<close> then returns fewer sums than
  counts); \<open>average_returns\<close> below shows that it returns whenever no sum is zero.
\<close>

theorem average_is_mean:
  assumes "average n ts = Inr BBavg"
  shows "(\<forall>k. contributions ts k \<noteq> [] \<longrightarrow>
            val BBavg k = sum_list (contributions ts k) / real (length (contributions ts k))) \<and>
         (\<forall>ts'. mset ts' = mset ts \<longrightarrow> average n ts' = Inr BBavg) \<and>
         (\<forall>rr XtX bl bl'. solve_blocks rr XtX bl = Inr ts \<longrightarrow> mset bl' = mset bl \<longrightarrow>
            (\<exists>ts'. solve_blocks rr XtX bl' = Inr ts' \<and> average n ts' = Inr BBavg)) \<and>
         (\<forall>AA BB k. force_pattern (zero_diag BBavg) AA = Inr BB \<longrightarrow>
            k \<in> set (nonzero AA) \<longrightarrow> fst k \<noteq> snd k \<longrightarrow> contributions ts k \<noteq> [] \<longrightarrow>
            val BB k = sum_list (contributions ts k) / real (length (contributions ts k)))"
proof (intro conjI allI impI)
  fix k assume "contributions ts k \<noteq> []"
  then show "val BBavg k = sum_list (contributions ts k) / real (length (contributions ts k))"
    by (simp add: average_mean [OF assms])
next
  fix ts' :: "((nat \<times> nat) \<times> real) list"
  assume "mset ts' = mset ts"
  then have "average n ts' = average n ts"
    by (rule average_mset)
  then show "average n ts' = Inr BBavg"
    using assms by simp
next
  fix rr XtX bl bl'
  assume "solve_blocks rr XtX bl = Inr ts" "mset bl' = mset bl"
  then obtain ts' where ts': "solve_blocks rr XtX bl' = Inr ts'" "mset ts' = mset ts"
    using solve_blocks_mset by blast
  have "average n ts' = average n ts"
    using ts'(2) by (rule average_mset)
  with ts'(1) assms show "\<exists>ts'. solve_blocks rr XtX bl' = Inr ts' \<and> average n ts' = Inr BBavg"
    by auto
next
  fix AA BB k
  assume "force_pattern (zero_diag BBavg) AA = Inr BB" "k \<in> set (nonzero AA)"
    "fst k \<noteq> snd k" "contributions ts k \<noteq> []"
  then show "val BB k = sum_list (contributions ts k) / real (length (contributions ts k))"
    by (simp add: val_forced average_mean [OF assms])
qed

lemma ex_average_returns: "\<not> isl (average 2 ex_triples)"
  by code_simp

lemma ex_contributions: "contributions ex_triples (0, Suc 0) = [1, 3]"
  by code_simp

theorem average_is_mean_witness:
  "\<exists>B. average 2 ex_triples = Inr B \<and> val B (0, 1) = 2 \<and> average 2 (rev ex_triples) = Inr B"
proof -
  obtain B where B: "average 2 ex_triples = Inr B"
    using ex_average_returns by (cases "average 2 ex_triples") auto
  note th = average_is_mean [OF B]
  have v: "val B (0, 1) = 2"
    using th [THEN conjunct1, rule_format, of "(0, 1)"] by (simp add: ex_contributions)
  have p: "average 2 (rev ex_triples) = Inr B"
    using th [THEN conjunct2, THEN conjunct1, rule_format, of "rev ex_triples"] by simp
  show ?thesis
    using B v p by blast
qed

subsection \<open>The support of the weight matrix\<close>

lemma average_returns:
  assumes "\<And>t. t \<in> set ts \<Longrightarrow> in_shape n (fst t)"
    and "\<And>k. contributions ts k \<noteq> [] \<Longrightarrow> sum_list (contributions ts k) \<noteq> 0"
  shows "\<exists>BBavg. average n ts = Inr BBavg"
proof -
  let ?S = "csc_matrix n ts"
  let ?C = "csc_matrix n (map (\<lambda>t. (fst t, 1)) ts)"
  have guard: "\<not> list_ex (\<lambda>t. \<not> in_shape n (fst t)) ts"
    using assms(1) by (auto simp: list_ex_iff)
  have "nonzero ?S = filter (\<lambda>k. contributions ts k \<noteq> []) (coords n)"
    unfolding nonzero_sum by (rule filter_cong) (auto dest: assms(2))
  then have same: "nonzero ?S = nonzero ?C"
    by (simp add: nonzero_cnt)
  have "length (map snd (find_nz ?S)) = length (map snd (find_nz ?C))"
    by (simp add: find_nz_def same)
  then show ?thesis
    using guard by (simp add: average_def Let_def np_divide_def)
qed

lemma sparse_parameter_estimation_dim:
  assumes "sparse_parameter_estimation rr XtX AA XtXdiag = Inr BB"
  shows "dim BB = dim XtX"
proof -
  from sparse_parameter_estimation_Inr [OF assms] obtain bl ts BBavg
    where "average (dim XtX) ts = Inr BBavg" "force_pattern (zero_diag BBavg) AA = Inr BB"
    by blast
  then show ?thesis
    using force_pattern_Inr(1) average_Inr(1) by simp
qed

text \<open>
  C3. Whenever \<^verbatim>\<open>sparse_parameter_estimation\<close> returns \<^verbatim>\<open>BB\<close> and the re-scaling
  returns \<^verbatim>\<open>W\<close>: both matrices are zero at every diagonal coordinate; a coordinate
  with a nonzero value in either is a nonzero coordinate of \<^verbatim>\<open>AA\<close>; the stored
  coordinates of \<^verbatim>\<open>BB\<close> are exactly the nonzero coordinates of \<^verbatim>\<open>AA\<close>, and those of
  \<^verbatim>\<open>W\<close> are among them; a coordinate of the pattern for which no block emitted a
  triple holds zero in both; and on the diagonal the two re-scaling factors multiply
  to one.
\<close>

theorem weight_matrix_support:
  assumes "sparse_parameter_estimation rr XtX AA XtXdiag = Inr BB"
    and "rescale_back rescaling_vec BB = Inr W"
    and "0 \<notin> set rescaling_vec"
  shows "(\<forall>i. val BB (i, i) = 0 \<and> val W (i, i) = 0) \<and>
         (\<forall>k. val BB k \<noteq> 0 \<or> val W k \<noteq> 0 \<longrightarrow> k \<in> set (nonzero AA)) \<and>
         dom (ent BB) = set (nonzero AA) \<and>
         dom (ent W) \<subseteq> set (nonzero AA) \<and>
         (\<forall>bl ts k. make_blockList rr AA XtXdiag = Inr bl \<longrightarrow>
            solve_blocks rr XtX bl = Inr ts \<longrightarrow>
            k \<in> set (nonzero AA) \<longrightarrow> contributions ts k = [] \<longrightarrow>
            val BB k = 0 \<and> val W k = 0) \<and>
         (\<forall>i<dim BB. (1 / rescaling_vec ! i) * rescaling_vec ! i = 1)"
proof -
  from sparse_parameter_estimation_Inr [OF assms(1)] obtain bl0 ts0 BBavg
    where bl0: "make_blockList rr AA XtXdiag = Inr bl0"
      and ts0: "solve_blocks rr XtX bl0 = Inr ts0"
      and avg: "average (dim XtX) ts0 = Inr BBavg"
      and fp: "force_pattern (zero_diag BBavg) AA = Inr BB"
    by blast
  note vB = val_forced [OF fp]
  note vW = rescale_back_Inr(1) [OF assms(2)]
  have diag: "val BB (i, i) = 0 \<and> val W (i, i) = 0" for i
    by (simp add: vB vW)
  have supp: "k \<in> set (nonzero AA)" if "val BB k \<noteq> 0 \<or> val W k \<noteq> 0" for k
  proof (rule ccontr)
    assume "k \<notin> set (nonzero AA)"
    then have "val BB k = 0" by (simp add: vB)
    then show False using that by (simp add: vW)
  qed
  have domB: "dom (ent BB) = set (nonzero AA)"
    by (auto simp: force_pattern_Inr(2) [OF fp] split: if_splits)
  have domW: "dom (ent W) \<subseteq> set (nonzero AA)"
    using rescale_back_Inr(2) [OF assms(2)] domB by auto
  have none: "val BB k = 0 \<and> val W k = 0"
    if "make_blockList rr AA XtXdiag = Inr bl" "solve_blocks rr XtX bl = Inr ts"
      "contributions ts k = []" for bl ts k
  proof -
    from that(1,2) bl0 ts0 have "ts = ts0" by simp
    with that(3) have "val BBavg k = 0"
      by (simp add: average_mean [OF avg])
    then have "val BB k = 0" by (simp add: vB)
    then show ?thesis by (simp add: vW)
  qed
  have len: "length rescaling_vec = dim BB"
    using assms(2) by (auto simp: rescale_back_def split: if_splits)
  have one: "(1 / rescaling_vec ! i) * rescaling_vec ! i = 1" if "i < dim BB" for i
  proof -
    have "rescaling_vec ! i \<in> set rescaling_vec"
      using that len by simp
    with assms(3) have "rescaling_vec ! i \<noteq> 0" by metis
    then show ?thesis by simp
  qed
  show ?thesis
    using diag supp domB domW none one by blast
qed

lemma ex_estimation_returns:
  "\<not> isl (sparse_parameter_estimation 1 (csc_matrix 4 ex_entries) (csc_matrix 4 ex_entries)
      [1, 2, 3, 3 / 2])"
  by code_simp

theorem weight_matrix_support_witness:
  "\<exists>BB W. sparse_parameter_estimation 1 (csc_matrix 4 ex_entries) (csc_matrix 4 ex_entries)
        [1, 2, 3, 3 / 2] = Inr BB \<and>
     rescale_back [1, 2, 1 / 2, 4] BB = Inr W \<and>
     val BB (1, 1) = 0 \<and> val W (1, 1) = 0 \<and>
     dom (ent BB) = set (nonzero (csc_matrix 4 ex_entries))"
proof -
  obtain BB where BB: "sparse_parameter_estimation 1 (csc_matrix 4 ex_entries)
      (csc_matrix 4 ex_entries) [1, 2, 3, 3 / 2] = Inr BB"
    using ex_estimation_returns
    by (cases "sparse_parameter_estimation 1 (csc_matrix 4 ex_entries)
      (csc_matrix 4 ex_entries) [1, 2, 3, 3 / 2]") auto
  have "dim BB = 4"
    using sparse_parameter_estimation_dim [OF BB] by simp
  then obtain W where W: "rescale_back [1, 2, 1 / 2, 4] BB = Inr W"
    by (simp add: rescale_back_def)
  have nz: "0 \<notin> set [1, 2, 1 / 2, 4 :: real]"
    by simp
  note th = weight_matrix_support [OF BB W nz]
  have d: "val BB (1, 1) = 0 \<and> val W (1, 1) = 0"
    using th [THEN conjunct1, rule_format, of 1] .
  have s: "dom (ent BB) = set (nonzero (csc_matrix 4 ex_entries))"
    using th [THEN conjunct2, THEN conjunct2, THEN conjunct1] .
  show ?thesis
    using BB W d s by blast
qed

subsection \<open>The loop of calculate\_sparsity\_pattern\<close>

lemma fold_zero_rows:
  "fold (\<lambda>r m. m((r, ii) \<mapsto> 0)) rows m k =
     (if snd k = ii \<and> fst k \<in> set rows then Some (0::real) else m k)"
  by (induction rows arbitrary: m) (auto simp: prod_eq_iff)

lemma ent_zero_rows:
  "ent (zero_rows A ii rows) (r, c) =
     (if c = ii \<and> r \<in> set rows then Some 0 else ent A (r, c))"
  by (simp add: zero_rows_def fold_zero_rows)

lemma cap_column_Inr:
  assumes "cap_column A K ii = Inr A'"
  shows "K < length (nonzero_rows A ii)"
    and "A' = zero_rows A ii (dropped_rows A K ii)"
  using assms
  by (auto simp: cap_column_def dropped_rows_def argpartition_def Let_def split: if_splits)

lemma cap_column_succeeds:
  assumes "K < length (nonzero_rows A ii)"
  shows "cap_column A K ii = Inr (zero_rows A ii (dropped_rows A K ii))"
  using assms
  by (simp add: cap_column_def dropped_rows_def argpartition_def Let_def)

lemma dim_zero_rows [simp]: "dim (zero_rows A ii rows) = dim A"
  by (simp add: zero_rows_def)

lemma same_column:
  assumes "dim A = dim B" and "\<And>r. ent A (r, c) = ent B (r, c)"
  shows "col_rows A c = col_rows B c" and "nonzero_rows A c = nonzero_rows B c"
    and "dropped_rows A K c = dropped_rows B K c"
proof -
  show 1: "col_rows A c = col_rows B c"
    by (simp add: col_rows_def assms)
  have v: "val A (r, c) = val B (r, c)" for r
    by (simp add: val_def assms(2))
  show 2: "nonzero_rows A c = nonzero_rows B c"
    by (simp add: nonzero_rows_def 1 v)
  show "dropped_rows A K c = dropped_rows B K c"
    by (simp add: dropped_rows_def 2 v)
qed

lemma cap_loop_ent:
  assumes "cap_loop h r K L = (Inr u, h')" and "distinct L"
  shows "dim (h' r) = dim (h r) \<and>
     (\<forall>i c. ent (h' r) (i, c) =
        (if c \<in> set L \<and> i \<in> set (dropped_rows (h r) K c) then Some 0 else ent (h r) (i, c))) \<and>
     (\<forall>p. p \<noteq> r \<longrightarrow> h' p = h p) \<and>
     (\<forall>c\<in>set L. K < length (nonzero_rows (h r) c))"
  using assms
proof (induction L arbitrary: h)
  case Nil
  then show ?case by simp
next
  case (Cons ii L)
  from Cons.prems(1) obtain A' where A': "cap_column (h r) K ii = Inr A'"
    and run: "cap_loop (h(r := A')) r K L = (Inr u, h')"
    by (auto split: sum.splits)
  have A'_eq: "A' = zero_rows (h r) ii (dropped_rows (h r) K ii)"
    by (rule cap_column_Inr(2) [OF A'])
  have d: "distinct L" and ii: "ii \<notin> set L"
    using Cons.prems(2) by simp_all
  have ih: "dim (h' r) = dim ((h(r := A')) r) \<and>
     (\<forall>i c. ent (h' r) (i, c) =
        (if c \<in> set L \<and> i \<in> set (dropped_rows ((h(r := A')) r) K c) then Some 0
         else ent ((h(r := A')) r) (i, c))) \<and>
     (\<forall>p. p \<noteq> r \<longrightarrow> h' p = (h(r := A')) p) \<and>
     (\<forall>c\<in>set L. K < length (nonzero_rows ((h(r := A')) r) c))"
    by (rule Cons.IH [OF run d])
  have dimA: "dim A' = dim (h r)"
    by (simp add: A'_eq)
  have same: "ent A' (i, c) = ent (h r) (i, c)" if "c \<in> set L" for c i
  proof -
    from that ii have "c \<noteq> ii" by auto
    then show ?thesis
      by (simp add: A'_eq ent_zero_rows)
  qed
  have col: "dropped_rows A' K c = dropped_rows (h r) K c" if "c \<in> set L" for c
    by (rule same_column(3) [OF dimA]) (rule same [OF that])
  have nzr: "nonzero_rows A' c = nonzero_rows (h r) c" if "c \<in> set L" for c
    by (rule same_column(2) [OF dimA]) (rule same [OF that])
  have len: "K < length (nonzero_rows (h r) c)" if "c \<in> set (ii # L)" for c
  proof (cases "c = ii")
    case True
    then show ?thesis
      using cap_column_Inr(1) [OF A'] by simp
  next
    case False
    with that have "c \<in> set L" by simp
    then show ?thesis
      using ih nzr by auto
  qed
  have "ent (h' r) (i, c) =
        (if c \<in> set (ii # L) \<and> i \<in> set (dropped_rows (h r) K c) then Some 0 else ent (h r) (i, c))"
    for i c
  proof -
    have step: "ent (h' r) (i, c) =
        (if c \<in> set L \<and> i \<in> set (dropped_rows A' K c) then Some 0 else ent A' (i, c))"
      using ih by simp
    show ?thesis
    proof (cases "c \<in> set L")
      case True
      with ii have "c \<noteq> ii" by auto
      then have "ent A' (i, c) = ent (h r) (i, c)"
        by (simp add: A'_eq ent_zero_rows)
      with True \<open>c \<noteq> ii\<close> show ?thesis
        by (simp add: step col [OF True])
    next
      case False
      then show ?thesis
        by (simp add: step) (auto simp: A'_eq ent_zero_rows)
    qed
  qed
  then show ?case
    using ih dimA len by simp
qed

lemma cap_loop_succeeds:
  assumes "\<And>c. c \<in> set L \<Longrightarrow> K < length (nonzero_rows (h r) c)" and "distinct L"
  shows "\<exists>h'. cap_loop h r K L = (Inr (), h')"
  using assms
proof (induction L arbitrary: h)
  case Nil
  then show ?case by simp
next
  case (Cons ii L)
  let ?A' = "zero_rows (h r) ii (dropped_rows (h r) K ii)"
  have A': "cap_column (h r) K ii = Inr ?A'"
    by (rule cap_column_succeeds) (simp add: Cons.prems(1))
  have d: "distinct L" and ii: "ii \<notin> set L"
    using Cons.prems(2) by simp_all
  have "K < length (nonzero_rows ((h(r := ?A')) r) c)" if "c \<in> set L" for c
  proof -
    from that ii have ne: "c \<noteq> ii" by auto
    have "nonzero_rows ?A' c = nonzero_rows (h r) c"
      by (rule same_column(2)) (simp_all add: ent_zero_rows ne)
    then show ?thesis
      using Cons.prems(1) [of c] that by simp
  qed
  from Cons.IH [of "h(r := ?A')", OF this d] obtain h' where "cap_loop (h(r := ?A')) r K L = (Inr (), h')"
    by blast
  then show ?case
    by (simp add: A')
qed

lemma ent_eliminate_zeros:
  "ent (eliminate_zeros A) k =
     (case ent A k of None \<Rightarrow> None | Some v \<Rightarrow> if v = 0 then None else Some v)"
  by (simp add: eliminate_zeros_def)

lemma dim_eliminate_zeros [simp]: "dim (eliminate_zeros A) = dim A"
  by (simp add: eliminate_zeros_def)

lemma calculate_sparsity_pattern_Inr:
  assumes "calculate_sparsity_pattern h r K = (Inr AA, h')"
  shows "AA = r" and "dim (h' r) = dim (h r)" and "\<And>p. p \<noteq> r \<Longrightarrow> h' p = h p"
    and "c < dim (h r) \<Longrightarrow> K < getnnz_col (h r) c \<Longrightarrow> K < length (nonzero_rows (h r) c)"
    and "ent (h' r) (i, c) =
      (if c < dim (h r) \<and> K < getnnz_col (h r) c \<and> i \<in> set (dropped_rows (h r) K c) then None
       else case ent (h r) (i, c) of None \<Rightarrow> None | Some v \<Rightarrow> if v = 0 then None else Some v)"
proof -
  let ?L = "filter (\<lambda>ii. getnnz_col (h r) ii > K) [0..<dim (h r)]"
  from assms obtain u h1 where loop: "cap_loop h r K ?L = (Inr u, h1)"
    and AA: "AA = r" and h': "h' = h1(r := eliminate_zeros (h1 r))"
    by (auto simp: calculate_sparsity_pattern_def Let_def split: prod.splits sum.splits)
  have "distinct ?L" by simp
  note e = cap_loop_ent [OF loop this]
  show "AA = r" by (rule AA)
  show "dim (h' r) = dim (h r)"
    using e by (simp add: h')
  show "\<And>p. p \<noteq> r \<Longrightarrow> h' p = h p"
    using e by (simp add: h')
  show "c < dim (h r) \<Longrightarrow> K < getnnz_col (h r) c \<Longrightarrow> K < length (nonzero_rows (h r) c)"
    using e by simp
  show "ent (h' r) (i, c) =
      (if c < dim (h r) \<and> K < getnnz_col (h r) c \<and> i \<in> set (dropped_rows (h r) K c) then None
       else case ent (h r) (i, c) of None \<Rightarrow> None | Some v \<Rightarrow> if v = 0 then None else Some v)"
    using e by (simp add: h' ent_eliminate_zeros)
qed

subsection \<open>Rows kept and rows dropped\<close>

lemma distinct_col_rows: "distinct (col_rows A c)"
  by (simp add: col_rows_def)

lemma distinct_nonzero_rows: "distinct (nonzero_rows A c)"
  by (simp add: nonzero_rows_def distinct_col_rows)

lemma set_nonzero_rows:
  "set (nonzero_rows A c) = {i. i < dim A \<and> ent A (i, c) \<noteq> None \<and> val A (i, c) \<noteq> 0}"
  by (auto simp: nonzero_rows_def col_rows_def)

lemma mset_map_nth_perm:
  assumes "distinct p" and "set p = {0..<length xs}"
  shows "mset (map ((!) xs) p) = mset xs"
proof -
  have "set p = set [0..<length xs]"
    using assms(2) by simp
  then have "mset p = mset [0..<length xs]"
    using assms(1) by (metis distinct_upt set_eq_iff_mset_eq_distinct)
  then have "mset (map ((!) xs) p) = mset (map ((!) xs) [0..<length xs])"
    by (metis mset_map)
  then show ?thesis
    by (simp add: map_nth)
qed

lemma distinct_np_argsort [simp]: "distinct (np_argsort a)"
  by (simp add: np_argsort_def)

lemma length_np_argsort [simp]: "length (np_argsort a) = length a"
  by (simp add: np_argsort_def)

lemma sorted_np_argsort: "sorted (map (\<lambda>i. a ! i) (np_argsort a))"
  by (simp add: np_argsort_def)

text \<open>The split of a column into the rows that stay and the rows that are zeroed.\<close>

lemma column_split:
  fixes A :: spmat and K c :: nat
  defines "jj \<equiv> nonzero_rows A c"
  defines "p \<equiv> np_argsort (map (\<lambda>j. - \<bar>val A (j, c)\<bar>) jj)"
  defines "kept \<equiv> map (\<lambda>k. jj ! k) (take K p)"
  assumes K: "K < length jj"
  shows "set kept \<union> set (dropped_rows A K c) = set jj"
    and "set kept \<inter> set (dropped_rows A K c) = {}"
    and "distinct kept" and "length kept = K"
    and "\<And>i i'. i \<in> set kept \<Longrightarrow> i' \<in> set (dropped_rows A K c) \<Longrightarrow>
           \<bar>val A (i', c)\<bar> \<le> \<bar>val A (i, c)\<bar>"
proof -
  let ?key = "map (\<lambda>j. - \<bar>val A (j, c)\<bar>) jj"
  have dr: "dropped_rows A K c = map (\<lambda>k. jj ! k) (drop K p)"
    by (simp add: dropped_rows_def jj_def p_def Let_def)
  have setp: "set p = {0..<length jj}" and dp: "distinct p" and lp: "length p = length jj"
    by (simp_all add: p_def)
  have all: "kept @ dropped_rows A K c = map ((!) jj) p"
    unfolding kept_def dr by (simp flip: map_append)
  have m: "mset (map ((!) jj) p) = mset jj"
    by (rule mset_map_nth_perm [OF dp setp])
  have dj: "distinct jj"
    by (simp add: jj_def distinct_nonzero_rows)
  have dall: "distinct (kept @ dropped_rows A K c)"
    unfolding all using m dj by (metis mset_eq_imp_distinct_iff)
  have "set (kept @ dropped_rows A K c) = set jj"
    unfolding all using m by (rule mset_eq_setD)
  then show "set kept \<union> set (dropped_rows A K c) = set jj"
    by simp
  show "set kept \<inter> set (dropped_rows A K c) = {}"
    using dall by simp
  show "distinct kept"
    using dall by simp
  show "length kept = K"
    using K by (simp add: kept_def lp)
  have srt: "sorted (map (\<lambda>i. ?key ! i) (take K p) @ map (\<lambda>i. ?key ! i) (drop K p))"
    using sorted_np_argsort [of ?key] by (simp add: p_def flip: map_append)
  show "\<bar>val A (i', c)\<bar> \<le> \<bar>val A (i, c)\<bar>"
    if "i \<in> set kept" "i' \<in> set (dropped_rows A K c)" for i i'
  proof -
    from that(1) obtain a where a: "a \<in> set (take K p)" "i = jj ! a"
      by (auto simp: kept_def)
    from that(2) obtain b where b: "b \<in> set (drop K p)" "i' = jj ! b"
      by (auto simp: dr)
    have "a \<in> set p" "b \<in> set p"
      using a(1) b(1) by (auto dest: in_set_takeD in_set_dropD)
    then have la: "a < length jj" and lb: "b < length jj"
      using setp by auto
    have "?key ! a \<le> ?key ! b"
      using srt a(1) b(1) by (auto simp: sorted_append)
    then show ?thesis
      using la lb by (simp add: a(2) b(2))
  qed
qed

subsection \<open>The capped columns\<close>

lemma calculate_sparsity_pattern_succeeds:
  assumes "\<And>k. ent (h r) k \<noteq> Some 0"
  shows "\<exists>h'. calculate_sparsity_pattern h r K = (Inr r, h')"
proof -
  let ?L = "filter (\<lambda>ii. getnnz_col (h r) ii > K) [0..<dim (h r)]"
  have "nonzero_rows (h r) c = col_rows (h r) c" for c
  proof -
    have "val (h r) (i, c) \<noteq> 0" if "i \<in> set (col_rows (h r) c)" for i
      using that assms [of "(i, c)"] by (auto simp: col_rows_def val_def split: option.splits)
    then show ?thesis
      by (simp add: nonzero_rows_def filter_id_conv)
  qed
  then have "K < length (nonzero_rows (h r) c)" if "c \<in> set ?L" for c
    using that by (simp add: getnnz_col_def)
  then obtain h1 where "cap_loop h r K ?L = (Inr (), h1)"
    using cap_loop_succeeds [of ?L K h r] by auto
  then show ?thesis
    by (simp add: calculate_sparsity_pattern_def Let_def)
qed

lemma length_filter_upt_card:
  assumes "S \<subseteq> {0..<n}"
  shows "length (filter (\<lambda>i. i \<in> S) [0..<n]) = card S"
proof -
  have "{x. x \<in> S} \<inter> set [0..<n] = S"
    using assms by auto
  then show ?thesis
    by (simp add: distinct_length_filter)
qed

text \<open>The columns of the pattern, for a run that returns.\<close>

lemma capped_column:
  assumes run: "calculate_sparsity_pattern h r K = (Inr AA, h')"
    and c: "c < dim (h r)" and over: "K < getnnz_col (h r) c"
  shows "getnnz_col (h' r) c = K"
    and "\<And>i i'. i < dim (h r) \<Longrightarrow> ent (h' r) (i, c) \<noteq> None \<Longrightarrow>
          ent (h r) (i', c) \<noteq> None \<Longrightarrow> ent (h' r) (i', c) = None \<Longrightarrow>
          \<bar>val (h r) (i', c)\<bar> \<le> \<bar>val (h r) (i, c)\<bar>"
proof -
  let ?A = "h r"
  let ?jj = "nonzero_rows ?A c"
  let ?kept = "map (\<lambda>k. ?jj ! k) (take K (np_argsort (map (\<lambda>j. - \<bar>val ?A (j, c)\<bar>) ?jj)))"
  let ?dr = "dropped_rows ?A K c"
  have K: "K < length ?jj"
    by (rule calculate_sparsity_pattern_Inr(4) [OF run c over])
  note sp = column_split [OF K]
  have e: "ent (h' r) (i, c) =
      (if i \<in> set ?dr then None
       else case ent ?A (i, c) of None \<Rightarrow> None | Some v \<Rightarrow> if v = 0 then None else Some v)" for i
    using c over by (simp add: calculate_sparsity_pattern_Inr(5) [OF run])
  have stored: "ent (h' r) (i, c) \<noteq> None \<longleftrightarrow> i \<in> set ?kept" if "i < dim ?A" for i
  proof -
    have "i \<in> set ?jj \<longleftrightarrow> (\<exists>v. ent ?A (i, c) = Some v \<and> v \<noteq> 0)"
      using that by (auto simp: set_nonzero_rows val_def split: option.splits)
    moreover have "i \<in> set ?kept \<longleftrightarrow> i \<in> set ?jj \<and> i \<notin> set ?dr"
      using sp(1,2) by auto
    ultimately show ?thesis
      by (auto simp: e split: option.splits)
  qed
  have sub: "set ?kept \<subseteq> {0..<dim ?A}"
    using sp(1) by (auto simp: set_nonzero_rows)
  have "col_rows (h' r) c = filter (\<lambda>i. i \<in> set ?kept) [0..<dim ?A]"
    unfolding col_rows_def calculate_sparsity_pattern_Inr(2) [OF run]
  proof (rule filter_cong)
    show "[0..<dim ?A] = [0..<dim ?A]" ..
  next
    fix i assume "i \<in> set [0..<dim ?A]"
    then have "i < dim ?A" by simp
    then show "(ent (h' r) (i, c) \<noteq> None) = (i \<in> set ?kept)"
      by (rule stored)
  qed
  then have "getnnz_col (h' r) c = card (set ?kept)"
    by (simp only: getnnz_col_def length_filter_upt_card [OF sub])
  also have "\<dots> = K"
    using distinct_card [OF sp(3)] sp(4) by (simp only:)
  finally show "getnnz_col (h' r) c = K" .
  show "\<bar>val ?A (i', c)\<bar> \<le> \<bar>val ?A (i, c)\<bar>"
    if "i < dim ?A" "ent (h' r) (i, c) \<noteq> None" "ent ?A (i', c) \<noteq> None" "ent (h' r) (i', c) = None"
    for i i'
  proof (cases "i' \<in> set ?dr")
    case True
    moreover have "i \<in> set ?kept"
      using stored [OF that(1)] that(2) by simp
    ultimately show ?thesis
      by (rule sp(5) [rotated])
  next
    case False
    with that(3,4) have "val ?A (i', c) = 0"
      by (auto simp: e val_def split: option.splits if_splits)
    then show ?thesis by simp
  qed
qed

lemma getnnz_col_le:
  assumes run: "calculate_sparsity_pattern h r K = (Inr AA, h')"
  shows "getnnz_col (h' r) c \<le> getnnz_col (h r) c"
proof -
  have "ent (h' r) (i, c) \<noteq> None \<Longrightarrow> ent (h r) (i, c) \<noteq> None" for i
    by (auto simp: calculate_sparsity_pattern_Inr(5) [OF run] split: if_splits option.splits)
  then have "col_rows (h' r) c =
      filter (\<lambda>i. ent (h r) (i, c) \<noteq> None \<and> ent (h' r) (i, c) \<noteq> None) [0..<dim (h r)]"
    unfolding col_rows_def calculate_sparsity_pattern_Inr(2) [OF run]
    by (intro filter_cong) auto
  then show ?thesis
    by (simp add: getnnz_col_def col_rows_def length_filter_conj_le)
qed

subsection \<open>The sparsity pattern\<close>

text \<open>
  C4. For every run of \<^verbatim>\<open>calculate_sparsity_pattern\<close> that returns: no column of the
  shape has more than \<^verbatim>\<open>maxInColumn\<close> stored entries; a column that had more has
  exactly \<^verbatim>\<open>maxInColumn\<close> left, and each entry that stayed is at least as large in
  magnitude as each entry of that column that went; a column within the budget keeps
  its values, and its structure too when it held no explicit zero; every stored entry
  of the result is a stored entry of the input with the same value, and none is zero;
  the shape is unchanged; and when the input is the \<^verbatim>\<open>AtA\<close> that \<^verbatim>\<open>filter_XtX\<close>
  returned, the support of the result lies within the support of \<^verbatim>\<open>XtX\<close>.
  \<open>calculate_sparsity_pattern_succeeds\<close> above shows that the function returns on every
  matrix without explicit zeros.
\<close>

theorem sparsity_pattern_capped:
  assumes "calculate_sparsity_pattern h AtA maxInColumn = (Inr AA, h')"
  shows "(\<forall>j<dim (h AtA). getnnz_col (h' AA) j \<le> maxInColumn) \<and>
         (\<forall>j<dim (h AtA). maxInColumn < getnnz_col (h AtA) j \<longrightarrow>
            getnnz_col (h' AA) j = maxInColumn \<and>
            (\<forall>i<dim (h AtA). \<forall>i'. ent (h' AA) (i, j) \<noteq> None \<longrightarrow>
               ent (h AtA) (i', j) \<noteq> None \<longrightarrow> ent (h' AA) (i', j) = None \<longrightarrow>
               \<bar>val (h AtA) (i', j)\<bar> \<le> \<bar>val (h AtA) (i, j)\<bar>)) \<and>
         (\<forall>j. getnnz_col (h AtA) j \<le> maxInColumn \<longrightarrow>
            (\<forall>i. val (h' AA) (i, j) = val (h AtA) (i, j)) \<and>
            ((\<forall>i. ent (h AtA) (i, j) \<noteq> Some 0) \<longrightarrow>
               (\<forall>i. ent (h' AA) (i, j) = ent (h AtA) (i, j)))) \<and>
         (\<forall>k v. ent (h' AA) k = Some v \<longrightarrow> ent (h AtA) k = Some v \<and> v \<noteq> 0) \<and>
         dim (h' AA) = dim (h AtA) \<and>
         (\<forall>X bs t1 t2 X0 resc dg.
            filter_XtX X bs t1 t2 = Inr (X0, resc, dg, h AtA) \<longrightarrow>
            dom (ent (h' AA)) \<subseteq> dom (ent X0))"
proof -
  note r = calculate_sparsity_pattern_Inr [OF assms]
  have AA: "AA = AtA" by (rule r(1))
  have le: "getnnz_col (h' AtA) j \<le> maxInColumn" if "j < dim (h AtA)" for j
  proof (cases "maxInColumn < getnnz_col (h AtA) j")
    case True
    then show ?thesis
      using capped_column(1) [OF assms that] by simp
  next
    case False
    then show ?thesis
      using getnnz_col_le [OF assms, of j] by simp
  qed
  have over: "getnnz_col (h' AtA) j = maxInColumn \<and>
            (\<forall>i<dim (h AtA). \<forall>i'. ent (h' AtA) (i, j) \<noteq> None \<longrightarrow>
               ent (h AtA) (i', j) \<noteq> None \<longrightarrow> ent (h' AtA) (i', j) = None \<longrightarrow>
               \<bar>val (h AtA) (i', j)\<bar> \<le> \<bar>val (h AtA) (i, j)\<bar>)"
    if "j < dim (h AtA)" "maxInColumn < getnnz_col (h AtA) j" for j
    using capped_column [OF assms that] by blast
  have within: "(\<forall>i. val (h' AtA) (i, j) = val (h AtA) (i, j)) \<and>
            ((\<forall>i. ent (h AtA) (i, j) \<noteq> Some 0) \<longrightarrow>
               (\<forall>i. ent (h' AtA) (i, j) = ent (h AtA) (i, j)))"
    if "getnnz_col (h AtA) j \<le> maxInColumn" for j
  proof -
    have e: "ent (h' AtA) (i, j) =
        (case ent (h AtA) (i, j) of None \<Rightarrow> None | Some v \<Rightarrow> if v = 0 then None else Some v)" for i
      using that by (simp add: r(5))
    have "val (h' AtA) (i, j) = val (h AtA) (i, j)" for i
      by (simp add: val_def e split: option.splits)
    moreover have "ent (h' AtA) (i, j) = ent (h AtA) (i, j)"
      if "\<forall>i. ent (h AtA) (i, j) \<noteq> Some 0" for i
      using that by (auto simp: e split: option.splits)
    ultimately show ?thesis by blast
  qed
  have sub: "ent (h AtA) k = Some v \<and> v \<noteq> 0" if "ent (h' AtA) k = Some v" for k v
    using that by (cases k) (auto simp: r(5) split: if_splits option.splits)
  have xtx: "dom (ent (h' AtA)) \<subseteq> dom (ent X0)"
    if "filter_XtX X bs t1 t2 = Inr (X0, resc, dg, h AtA)" for X bs t1 t2 X0 resc dg
  proof
    fix k assume "k \<in> dom (ent (h' AtA))"
    then obtain v where "ent (h' AtA) k = Some v" by auto
    then have "ent (h AtA) k = Some v" using sub by blast
    then show "k \<in> dom (ent X0)"
      by (cases k) (auto simp: filter_XtX_ent [OF that] split: if_splits)
  qed
  show ?thesis
    unfolding AA using le over within sub r(2) xtx by blast
qed

lemma ex_pattern_returns: "fst (calculate_sparsity_pattern ex_heap 1 2) = Inr 1"
  by code_simp

lemma ex_over_budget: "getnnz_col (ex_heap (Suc 0)) (Suc 0) = 3" "dim (ex_heap (Suc 0)) = 4"
  by code_simp+

theorem sparsity_pattern_capped_witness:
  "\<exists>h'. calculate_sparsity_pattern ex_heap 1 2 = (Inr 1, h') \<and>
      getnnz_col (h' 1) 1 = 2 \<and> dim (h' 1) = 4"
proof -
  obtain h' where run: "calculate_sparsity_pattern ex_heap 1 2 = (Inr 1, h')"
    using ex_pattern_returns by (cases "calculate_sparsity_pattern ex_heap 1 2") auto
  note th = sparsity_pattern_capped [OF run]
  have "getnnz_col (h' 1) 1 = 2"
    using th [THEN conjunct2, THEN conjunct1, rule_format, of 1]
    by (simp add: ex_over_budget)
  moreover have "dim (h' 1) = 4"
    using th [THEN conjunct2, THEN conjunct2, THEN conjunct2, THEN conjunct2, THEN conjunct1]
    by (simp add: ex_over_budget)
  ultimately show ?thesis
    using run by blast
qed

lemma set_diag_Inr:
  assumes "set_diag A d = Inr A'"
  shows "\<exists>d'. broadcast_to d (dim A) = Inr d' \<and> dim A' = dim A \<and>
     (\<forall>k. ent A' k = (if fst k = snd k \<and> fst k < dim A then Some (d' ! fst k) else ent A k))"
  using assms
  by (auto simp: set_diag_def fold_diag split: sum.splits)

lemma broadcast_same: "length d = n \<Longrightarrow> broadcast_to d n = Inr d"
  by (simp add: broadcast_to_def)

lemma sparse_solution_Inr:
  assumes "sparse_solution g h rr K L2reg = (Inr BBsparse, h')"
  shows "\<exists>X1 h2 X2.
      set_diag (h (g_XtX g)) (g_XtXdiag g) = Inr X1 \<and>
      calculate_sparsity_pattern (h(g_XtX g := X1)) (g_AtA g) K = (Inr (g_AtA g), h2) \<and>
      set_diag (h2 (g_XtX g)) (map (\<lambda>d. d + L2reg) (g_XtXdiag g)) = Inr X2 \<and>
      h' = h2(g_XtX g := X2) \<and>
      sparse_parameter_estimation rr (h' (g_XtX g)) (h' (g_AtA g))
        (map (\<lambda>d. d + L2reg) (g_XtXdiag g)) = Inr BBsparse"
proof -
  from assms obtain X1 where X1: "set_diag (h (g_XtX g)) (g_XtXdiag g) = Inr X1"
    by (auto simp: sparse_solution_def split: sum.splits)
  from assms X1 obtain AA h2
    where csp: "calculate_sparsity_pattern (h(g_XtX g := X1)) (g_AtA g) K = (Inr AA, h2)"
    by (auto simp: sparse_solution_def Let_def split: sum.splits prod.splits)
  have AA: "AA = g_AtA g"
    by (rule calculate_sparsity_pattern_Inr(1) [OF csp])
  from assms X1 csp obtain X2
    where X2: "set_diag (h2 (g_XtX g)) (map (\<lambda>d. d + L2reg) (g_XtXdiag g)) = Inr X2"
    by (auto simp: sparse_solution_def Let_def split: sum.splits prod.splits)
  from assms X1 csp X2 have h': "h' = h2(g_XtX g := X2)"
    and est: "sparse_parameter_estimation rr ((h2(g_XtX g := X2)) (g_XtX g))
        ((h2(g_XtX g := X2)) AA) (map (\<lambda>d. d + L2reg) (g_XtXdiag g)) = Inr BBsparse"
    by (auto simp: sparse_solution_def Let_def)
  show ?thesis
    using X1 csp X2 h' est unfolding AA by blast
qed

subsection \<open>The store after sparse\_solution\<close>

lemma ex_solution_returns: "\<not> isl (fst (sparse_solution ex_globals ex_heap 1 2 1))"
  by code_simp

lemma ex_run:
  obtains BB h' where "sparse_solution ex_globals ex_heap 1 2 1 = (Inr BB, h')"
  using ex_solution_returns
  by (cases "sparse_solution ex_globals ex_heap 1 2 1";
      cases "fst (sparse_solution ex_globals ex_heap 1 2 1)") auto

lemma ex_globals_simps:
  "g_XtX ex_globals = 0" "g_AtA ex_globals = Suc 0" "g_XtXdiag ex_globals = [1, 2, 3, 3 / 2]"
  by (simp_all add: ex_globals_def)

lemma ex_heap_dim: "dim (ex_heap r) = 4"
  by (simp add: ex_heap_def)

text \<open>
  C9. \<^verbatim>\<open>calculate_sparsity_pattern\<close> returns the address it was given, and the object
  at that address is the one it zeroed and compacted. So when \<^verbatim>\<open>sparse_solution\<close>
  returns, the object behind the module-level name \<^verbatim>\<open>AtA\<close> is the capped pattern
  that the estimation read: its columns hold at most \<^verbatim>\<open>maxInColumn\<close> entries, all taken
  from the former contents, and it differs from the former contents as soon as one
  column was over the budget. \<^verbatim>\<open>XtX\<close> and \<^verbatim>\<open>AtA\<close> are taken to be two objects, as
  \<^verbatim>\<open>filter_XtX\<close> creates them.
\<close>

theorem AtA_capped_in_place:
  assumes "sparse_solution g h rr maxInColumn L2reg = (Inr BBsparse, h')"
    and "g_XtX g \<noteq> g_AtA g"
  shows "(\<exists>h1 h2. h1 (g_AtA g) = h (g_AtA g) \<and>
            calculate_sparsity_pattern h1 (g_AtA g) maxInColumn = (Inr (g_AtA g), h2) \<and>
            h' (g_AtA g) = h2 (g_AtA g)) \<and>
         sparse_parameter_estimation rr (h' (g_XtX g)) (h' (g_AtA g))
            (map (\<lambda>d. d + L2reg) (g_XtXdiag g)) = Inr BBsparse \<and>
         (\<forall>j<dim (h (g_AtA g)). getnnz_col (h' (g_AtA g)) j \<le> maxInColumn) \<and>
         (\<forall>k v. ent (h' (g_AtA g)) k = Some v \<longrightarrow> ent (h (g_AtA g)) k = Some v \<and> v \<noteq> 0) \<and>
         ((\<exists>j<dim (h (g_AtA g)). maxInColumn < getnnz_col (h (g_AtA g)) j) \<longrightarrow>
            h' (g_AtA g) \<noteq> h (g_AtA g))"
proof -
  from sparse_solution_Inr [OF assms(1)] obtain X1 h2 X2
    where X1: "set_diag (h (g_XtX g)) (g_XtXdiag g) = Inr X1"
      and csp: "calculate_sparsity_pattern (h(g_XtX g := X1)) (g_AtA g) maxInColumn =
          (Inr (g_AtA g), h2)"
      and h': "h' = h2(g_XtX g := X2)"
      and est: "sparse_parameter_estimation rr (h' (g_XtX g)) (h' (g_AtA g))
          (map (\<lambda>d. d + L2reg) (g_XtXdiag g)) = Inr BBsparse"
    by blast
  let ?h1 = "h(g_XtX g := X1)"
  have h1: "?h1 (g_AtA g) = h (g_AtA g)"
    using assms(2) by simp
  have fin: "h' (g_AtA g) = h2 (g_AtA g)"
    using assms(2) by (simp add: h')
  have a: "\<exists>h1 h2. h1 (g_AtA g) = h (g_AtA g) \<and>
            calculate_sparsity_pattern h1 (g_AtA g) maxInColumn = (Inr (g_AtA g), h2) \<and>
            h' (g_AtA g) = h2 (g_AtA g)"
    using h1 csp fin by blast
  have le: "getnnz_col (h' (g_AtA g)) j \<le> maxInColumn" if "j < dim (h (g_AtA g))" for j
  proof (cases "maxInColumn < getnnz_col (?h1 (g_AtA g)) j")
    case True
    then show ?thesis
      using capped_column(1) [OF csp, of j] that by (simp add: fin h1 del: fun_upd_apply)
  next
    case False
    then show ?thesis
      using getnnz_col_le [OF csp, of j] by (simp add: fin h1 del: fun_upd_apply)
  qed
  have sub: "ent (h (g_AtA g)) k = Some v \<and> v \<noteq> 0" if "ent (h' (g_AtA g)) k = Some v" for k v
    using that unfolding fin
    by (cases k)
      (auto simp: calculate_sparsity_pattern_Inr(5) [OF csp] h1 simp del: fun_upd_apply
        split: if_splits option.splits)
  have lost: "h' (g_AtA g) \<noteq> h (g_AtA g)"
    if "\<exists>j<dim (h (g_AtA g)). maxInColumn < getnnz_col (h (g_AtA g)) j"
  proof
    assume eq: "h' (g_AtA g) = h (g_AtA g)"
    from that obtain j where "j < dim (h (g_AtA g))" "maxInColumn < getnnz_col (h (g_AtA g)) j"
      by blast
    with le [of j] show False by (simp add: eq)
  qed
  show ?thesis
    using a est le sub lost by blast
qed

theorem AtA_capped_in_place_witness:
  "\<exists>BB h'. sparse_solution ex_globals ex_heap 1 2 1 = (Inr BB, h') \<and>
     getnnz_col (h' 1) 1 \<le> 2 \<and> h' 1 \<noteq> ex_heap 1"
proof -
  obtain BB h' where run: "sparse_solution ex_globals ex_heap 1 2 1 = (Inr BB, h')"
    by (rule ex_run)
  have ne: "g_XtX ex_globals \<noteq> g_AtA ex_globals"
    by (simp add: ex_globals_simps)
  note th = AtA_capped_in_place [OF run ne]
  have 1: "getnnz_col (h' 1) 1 \<le> 2"
    using th [THEN conjunct2, THEN conjunct2, THEN conjunct1, rule_format, of 1]
    by (simp add: ex_globals_simps ex_heap_dim)
  have "\<exists>j<dim (ex_heap (Suc 0)). 2 < getnnz_col (ex_heap (Suc 0)) j"
    using ex_over_budget by (intro exI [of _ "Suc 0"]) simp
  then have 2: "h' 1 \<noteq> ex_heap 1"
    using th [THEN conjunct2, THEN conjunct2, THEN conjunct2, THEN conjunct2]
    by (simp add: ex_globals_simps)
  show ?thesis
    using run 1 2 by blast
qed

text \<open>
  C10. \<^verbatim>\<open>sparse_solution\<close> first stores \<^verbatim>\<open>XtXdiag\<close> on the diagonal of the object
  behind \<^verbatim>\<open>XtX\<close>; when it returns, every diagonal entry of that object holds
  \<^verbatim>\<open>XtXdiag[i] + L2reg\<close>. \<^verbatim>\<open>XtXdiag\<close> has the length of the shape, as
  \<^verbatim>\<open>XtX.diagonal()\<close> gives it.
\<close>

theorem diagonal_left_regularized:
  assumes "sparse_solution g h rr maxInColumn L2reg = (Inr BBsparse, h')"
    and "length (g_XtXdiag g) = dim (h (g_XtX g))"
    and "i < dim (h (g_XtX g))"
  shows "(\<exists>X1. set_diag (h (g_XtX g)) (g_XtXdiag g) = Inr X1 \<and>
            ent X1 (i, i) = Some (g_XtXdiag g ! i)) \<and>
         ent (h' (g_XtX g)) (i, i) = Some (g_XtXdiag g ! i + L2reg)"
proof -
  from sparse_solution_Inr [OF assms(1)] obtain X1 h2 X2
    where X1: "set_diag (h (g_XtX g)) (g_XtXdiag g) = Inr X1"
      and csp: "calculate_sparsity_pattern (h(g_XtX g := X1)) (g_AtA g) maxInColumn =
          (Inr (g_AtA g), h2)"
      and X2: "set_diag (h2 (g_XtX g)) (map (\<lambda>d. d + L2reg) (g_XtXdiag g)) = Inr X2"
      and h': "h' = h2(g_XtX g := X2)"
    by blast
  from set_diag_Inr [OF X1] have dimX1: "dim X1 = dim (h (g_XtX g))"
    and e1: "ent X1 (i, i) = Some (g_XtXdiag g ! i)"
    using assms(2,3) by (auto simp: broadcast_same)
  have dim2: "dim (h2 (g_XtX g)) = dim (h (g_XtX g))"
  proof (cases "g_XtX g = g_AtA g")
    case True
    then show ?thesis
      using calculate_sparsity_pattern_Inr(2) [OF csp] dimX1 by simp
  next
    case False
    then show ?thesis
      using calculate_sparsity_pattern_Inr(3) [OF csp, of "g_XtX g"] dimX1 by simp
  qed
  have "length (map (\<lambda>d. d + L2reg) (g_XtXdiag g)) = dim (h2 (g_XtX g))"
    by (simp add: dim2 assms(2))
  with set_diag_Inr [OF X2] have "ent X2 (i, i) = Some (map (\<lambda>d. d + L2reg) (g_XtXdiag g) ! i)"
    using assms(3) dim2 by (auto simp: broadcast_same)
  then have "ent (h' (g_XtX g)) (i, i) = Some (g_XtXdiag g ! i + L2reg)"
    using assms(2,3) by (simp add: h')
  with X1 e1 show ?thesis by blast
qed

theorem diagonal_left_regularized_witness:
  "\<exists>BB h'. sparse_solution ex_globals ex_heap 1 2 1 = (Inr BB, h') \<and>
     ent (h' 0) (2, 2) = Some 4"
proof -
  obtain BB h' where run: "sparse_solution ex_globals ex_heap 1 2 1 = (Inr BB, h')"
    by (rule ex_run)
  have len: "length (g_XtXdiag ex_globals) = dim (ex_heap (g_XtX ex_globals))"
    by (simp add: ex_globals_simps ex_heap_dim)
  have i: "2 < dim (ex_heap (g_XtX ex_globals))"
    by (simp add: ex_heap_dim)
  have "ent (h' 0) (2, 2) = Some 4"
    using diagonal_left_regularized [OF run len i, THEN conjunct2]
    by (simp add: ex_globals_simps)
  then show ?thesis
    using run by blast
qed

end
